theory Spec2Isabelle
  imports Complex_Main "HOL-Library.Char_ord" "HOL-Library.List_Lexorder" "HOL-Library.Multiset"
    "HOL-Library.Sublist"
begin

section \<open>Shared vocabulary\<close>

text \<open>
  Python exceptions that the modelled functions can raise. A function that can fail
  returns \<open>py_error + 'a\<close>, with \<open>Inl\<close> the raised exception.
\<close>

datatype py_error = KeyError | IndexError | AttributeError | ValueError | TypeError
  | MissingComponentError | UnboundLocalError | RuntimeWarning

datatype ProblemTypes = BINARY | MULTICLASS | REGRESSION | TIME_SERIES_REGRESSION
  | TIME_SERIES_BINARY | TIME_SERIES_MULTICLASS | MULTISERIES_TIME_SERIES_REGRESSION

text \<open>
  Modelled from the spec: the predicates of \<open>evalml.problem_types\<close> are imported by
  \<open>pipelines/utils.py\<close> and \<open>model_understanding/metrics.py\<close> but are not part of the
  sources at hand. The spec's closed enumeration of problem-type tokens (binary,
  multiclass, regression, time-series-binary, time-series-multiclass,
  time-series-regression, multiseries-time-series-regression) fixes what each predicate
  holds of.
\<close>

fun is_classification :: "ProblemTypes \<Rightarrow> bool" where
  "is_classification BINARY = True"
| "is_classification MULTICLASS = True"
| "is_classification TIME_SERIES_BINARY = True"
| "is_classification TIME_SERIES_MULTICLASS = True"
| "is_classification _ = False"

fun is_regression :: "ProblemTypes \<Rightarrow> bool" where
  "is_regression REGRESSION = True"
| "is_regression TIME_SERIES_REGRESSION = True"
| "is_regression MULTISERIES_TIME_SERIES_REGRESSION = True"
| "is_regression _ = False"

fun is_time_series :: "ProblemTypes \<Rightarrow> bool" where
  "is_time_series TIME_SERIES_REGRESSION = True"
| "is_time_series TIME_SERIES_BINARY = True"
| "is_time_series TIME_SERIES_MULTICLASS = True"
| "is_time_series MULTISERIES_TIME_SERIES_REGRESSION = True"
| "is_time_series _ = False"

fun is_multiseries :: "ProblemTypes \<Rightarrow> bool" where
  "is_multiseries MULTISERIES_TIME_SERIES_REGRESSION = True"
| "is_multiseries _ = False"

section \<open>The preprocessing selector (\<open>pipelines/utils.py\<close>, lines 78--362)\<close>

subsection \<open>Data: the feature table as the rules read it\<close>

datatype logical_type = Address | Age | AgeFractional | AgeNullable | Boolean
  | BooleanNullable | Categorical | CountryCode | CurrencyCode | Datetime | Double
  | EmailAddress | Filepath | IPAddress | Integer | IntegerNullable | LatLong
  | NaturalLanguage | Ordinal | PersonFullName | PhoneNumber | PostalCode
  | SubRegionCode | Timedelta | Unknown | URL

text \<open>
  A column of \<open>X\<close> with its woodwork schema entry: the logical type, the semantic tags,
  and whether every value of the column is null (\<open>isnull().all()\<close>).
\<close>

record column =
  col_name :: string
  ltype :: logical_type
  tags :: "string list"
  all_null :: bool

type_synonym features = "column list"

text \<open>
  \<open>X.ww.select(...)\<close> takes logical-type names and semantic tags. The strings the rules
  pass are \<open>"index"\<close> and \<open>"category"\<close> (semantic tags) and \<open>"unknown"\<close>,
  \<open>"EmailAddress"\<close>, \<open>"URL"\<close>, \<open>"Datetime"\<close>, \<open>"NaturalLanguage"\<close>, \<open>"Ordinal"\<close>
  (logical types).
\<close>

datatype selector = LType logical_type | Tag string

fun matches :: "column \<Rightarrow> selector \<Rightarrow> bool" where
  "matches c (LType t) = (ltype c = t)"
| "matches c (Tag s) = (s \<in> set (tags c))"

definition ww_select :: "selector list \<Rightarrow> features \<Rightarrow> features" where
  "ww_select include X = filter (\<lambda>c. list_ex (matches c) include) X"

definition ww_select_exclude :: "selector list \<Rightarrow> features \<Rightarrow> features" where
  "ww_select_exclude exclude X = filter (\<lambda>c. \<not> list_ex (matches c) exclude) X"

datatype ModelFamily = ARIMA | PROPHET | LINEAR_MODEL | RANDOM_FOREST | CATBOOST
  | OTHER_FAMILY string

record estimator =
  est_name :: string
  model_family :: ModelFamily

definition CatBoostClassifier :: estimator where
  "CatBoostClassifier = \<lparr>est_name = ''CatBoost Classifier'', model_family = CATBOOST\<rparr>"

definition CatBoostRegressor :: estimator where
  "CatBoostRegressor = \<lparr>est_name = ''CatBoost Regressor'', model_family = CATBOOST\<rparr>"

datatype component = LabelEncoder | DropNullColumns | DropColumns | EmailFeaturizer
  | URLFeaturizer | DateTimeFeaturizer | NaturalLanguageFeaturizer | Imputer
  | OneHotEncoder | OrdinalEncoder | Undersampler | Oversampler | StandardScaler
  | TimeSeriesFeaturizer | STLDecomposer | DropNaNRowsTransformer

text \<open>
  What a run of the selector takes from outside the sources. The collaborators the rules
  call and the sources do not contain, taken as functions of their arguments:
  \<open>get_time_index(X, y, None).freq\<close> (its name, \<open>None\<close> when no frequency can be
  inferred), \<open>STLDecomposer.is_freq_valid\<close>, \<open>STLDecomposer.determine_periodicity(X, y,
  rel_max_order)\<close> and \<open>estimator_unable_to_handle_nans\<close>. And the interpreter's
  arrangement of a set: \<open>set_order\<close> gives the order in which this run holds and iterates
  a set that is built from the given elements. Python fixes no such order, and the hashes
  of the logical-type classes differ from one run to the next.
\<close>

record 'y externals =
  time_index_freq :: "features \<Rightarrow> 'y \<Rightarrow> string option"
  is_freq_valid :: "string \<Rightarrow> bool"
  determine_periodicity :: "features \<Rightarrow> 'y \<Rightarrow> nat \<Rightarrow> int option"
  estimator_unable_to_handle_nans :: "estimator option \<Rightarrow> py_error + bool"
  set_order :: "logical_type list \<Rightarrow> logical_type list"

definition DECOMPOSER_PERIOD_CAP :: int where
  "DECOMPOSER_PERIOD_CAP = 1000"

subsection \<open>The rule functions\<close>

definition get_label_encoder :: "ProblemTypes \<Rightarrow> component list" where
  "get_label_encoder problem_type =
     (if is_classification problem_type then [LabelEncoder] else [])"

definition get_drop_all_null :: "features \<Rightarrow> component list" where
  "get_drop_all_null X =
     (let non_index_unknown = ww_select_exclude [Tag ''index'', LType Unknown] X;
          all_null_cols = filter all_null non_index_unknown
      in if length all_null_cols > 0 then [DropNullColumns] else [])"

definition get_drop_index_unknown :: "features \<Rightarrow> component list" where
  "get_drop_index_unknown X =
     (let index_and_unknown_columns = ww_select [Tag ''index'', LType Unknown] X
      in if length index_and_unknown_columns > 0 then [DropColumns] else [])"

definition get_email :: "features \<Rightarrow> component list" where
  "get_email X =
     (let email_columns = ww_select [LType EmailAddress] X
      in if length email_columns > 0 then [EmailFeaturizer] else [])"

definition get_url :: "features \<Rightarrow> component list" where
  "get_url X =
     (let url_columns = ww_select [LType URL] X
      in if length url_columns > 0 then [URLFeaturizer] else [])"

text \<open>
  \<open>estimator_class.model_family\<close> is read only when a datetime column exists (the
  \<open>and\<close> short-circuits); on \<open>None\<close> the read raises \<open>AttributeError\<close>.
\<close>

definition get_datetime :: "features \<Rightarrow> estimator option \<Rightarrow> py_error + component list" where
  "get_datetime X estimator_class =
     (let datetime_cols = ww_select [LType Datetime] X;
          add_datetime_featurizer = length datetime_cols > 0
      in if add_datetime_featurizer then
           (case estimator_class of
              None \<Rightarrow> Inl AttributeError
            | Some e \<Rightarrow>
                if model_family e \<notin> set [ARIMA, PROPHET] then Inr [DateTimeFeaturizer]
                else Inr [])
         else Inr [])"

definition get_natural_language :: "features \<Rightarrow> component list" where
  "get_natural_language X =
     (let text_columns = ww_select [LType NaturalLanguage] X
      in if length text_columns > 0 then [NaturalLanguageFeaturizer] else [])"

definition types_imputer_handles :: "logical_type list" where
  "types_imputer_handles = [AgeNullable, Boolean, BooleanNullable, Categorical, Double,
     Integer, IntegerNullable, URL, EmailAddress, Datetime]"

text \<open>
  \<open>input_logical_types\<close> is a set comprehension: the distinct logical types of the columns,
  in the arrangement of this run. The intersection with the types the imputer handles
  keeps the elements of that set which are in the other.
\<close>

definition get_imputer :: "'y externals \<Rightarrow> features \<Rightarrow> component list" where
  "get_imputer ext X =
     (let input_logical_types = set_order ext (remdups (map ltype X));
          text_columns = ww_select [LType NaturalLanguage] X
      in if length (filter (\<lambda>t. t \<in> set types_imputer_handles) input_logical_types) > 0
            \<or> length text_columns > 0
         then [Imputer] else [])"

definition get_ohe :: "features \<Rightarrow> estimator option \<Rightarrow> component list" where
  "get_ohe X estimator_class =
     (let categorical_cols = ww_select [Tag ''category'', LType URL, LType EmailAddress] X
      in if length categorical_cols > 0
            \<and> estimator_class \<notin> set [Some CatBoostClassifier, Some CatBoostRegressor]
         then [OneHotEncoder] else [])"

definition get_ordinal_encoder :: "features \<Rightarrow> component list" where
  "get_ordinal_encoder X =
     (let ordinal_cols = ww_select [LType Ordinal] X
      in if length ordinal_cols > 0 then [OrdinalEncoder] else [])"

definition sampler_components :: "(string \<times> component) list" where
  "sampler_components = [(''Undersampler'', Undersampler), (''Oversampler'', Oversampler)]"

definition get_sampler :: "string option \<Rightarrow> py_error + component list" where
  "get_sampler sampler_name =
     (case sampler_name of
        None \<Rightarrow> Inr []
      | Some s \<Rightarrow>
          (case map_of sampler_components s of
             None \<Rightarrow> Inl KeyError
           | Some c \<Rightarrow> Inr [c]))"

definition get_standard_scaler :: "estimator option \<Rightarrow> component list" where
  "get_standard_scaler estimator_class =
     (case estimator_class of
        None \<Rightarrow> []
      | Some e \<Rightarrow> if model_family e = LINEAR_MODEL then [StandardScaler] else [])"

definition get_time_series_featurizer :: "ProblemTypes \<Rightarrow> component list" where
  "get_time_series_featurizer problem_type =
     (if is_time_series problem_type then [TimeSeriesFeaturizer] else [])"

definition rel_max_order :: "string \<Rightarrow> nat" where
  "rel_max_order freq = (if CHR ''Q'' \<in> set freq then 3 else 5)"

definition get_decomposer ::
  "'y externals \<Rightarrow> features \<Rightarrow> 'y \<Rightarrow> ProblemTypes \<Rightarrow> component list" where
  "get_decomposer ext X y problem_type =
     (if is_time_series problem_type \<and> is_regression problem_type then
        if is_multiseries problem_type then [STLDecomposer]
        else
          (case time_index_freq ext X y of
             None \<Rightarrow> []
           | Some freq \<Rightarrow>
               if is_freq_valid ext freq then
                 (let order = rel_max_order freq;
                      seasonal_period = determine_periodicity ext X y order
                  in case seasonal_period of
                       None \<Rightarrow> []
                     | Some p \<Rightarrow> if p \<le> DECOMPOSER_PERIOD_CAP then [STLDecomposer] else [])
               else [])
      else [])"

text \<open>
  \<open>is_time_series(...) and (estimator_unable_to_handle_nans(...) or sampler_name)\<close>:
  the collaborator is called only for a time-series problem, and the sampler name is read
  by its truthiness (\<open>None\<close> and the empty string are false).
\<close>

definition get_drop_nan_rows_transformer ::
  "'y externals \<Rightarrow> ProblemTypes \<Rightarrow> estimator option \<Rightarrow> string option
     \<Rightarrow> py_error + component list" where
  "get_drop_nan_rows_transformer ext problem_type estimator_class sampler_name =
     (if is_time_series problem_type then
        (case estimator_unable_to_handle_nans ext estimator_class of
           Inl e \<Rightarrow> Inl e
         | Inr unable \<Rightarrow>
             if unable \<or> (sampler_name \<noteq> None \<and> sampler_name \<noteq> Some [])
             then Inr [DropNaNRowsTransformer] else Inr [])
      else Inr [])"

subsection \<open>The selector\<close>

text \<open>
  The selector holds the rule functions in a list and filters it by membership in
  \<open>functions_to_exclude\<close>; a rule function is named by a constructor of \<open>rule\<close> and run
  by \<open>call_rule\<close> with the arguments \<open>(X, y, problem_type, estimator_class,
  sampler_name)\<close>.
\<close>

datatype rule = R_label_encoder | R_drop_all_null | R_drop_index_unknown | R_url | R_email
  | R_datetime | R_natural_language | R_imputer | R_ordinal_encoder | R_ohe | R_sampler
  | R_standard_scaler | R_time_series_featurizer | R_decomposer
  | R_drop_nan_rows_transformer

fun call_rule ::
  "'y externals \<Rightarrow> rule \<Rightarrow> features \<Rightarrow> 'y \<Rightarrow> ProblemTypes \<Rightarrow> estimator option
     \<Rightarrow> string option \<Rightarrow> py_error + component list" where
  "call_rule ext R_label_encoder X y pt est s = Inr (get_label_encoder pt)"
| "call_rule ext R_drop_all_null X y pt est s = Inr (get_drop_all_null X)"
| "call_rule ext R_drop_index_unknown X y pt est s = Inr (get_drop_index_unknown X)"
| "call_rule ext R_url X y pt est s = Inr (get_url X)"
| "call_rule ext R_email X y pt est s = Inr (get_email X)"
| "call_rule ext R_datetime X y pt est s = get_datetime X est"
| "call_rule ext R_natural_language X y pt est s = Inr (get_natural_language X)"
| "call_rule ext R_imputer X y pt est s = Inr (get_imputer ext X)"
| "call_rule ext R_ordinal_encoder X y pt est s = Inr (get_ordinal_encoder X)"
| "call_rule ext R_ohe X y pt est s = Inr (get_ohe X est)"
| "call_rule ext R_sampler X y pt est s = get_sampler s"
| "call_rule ext R_standard_scaler X y pt est s = Inr (get_standard_scaler est)"
| "call_rule ext R_time_series_featurizer X y pt est s = Inr (get_time_series_featurizer pt)"
| "call_rule ext R_decomposer X y pt est s = Inr (get_decomposer ext X y pt)"
| "call_rule ext R_drop_nan_rows_transformer X y pt est s =
     get_drop_nan_rows_transformer ext pt est s"

text \<open>The \<open>for function in components_functions\<close> loop, with its accumulator.\<close>

fun run_functions ::
  "'y externals \<Rightarrow> rule list \<Rightarrow> rule list \<Rightarrow> features \<Rightarrow> 'y \<Rightarrow> ProblemTypes
     \<Rightarrow> estimator option \<Rightarrow> string option \<Rightarrow> component list \<Rightarrow> py_error + component list"
  where
  "run_functions ext [] excl X y pt est s components = Inr components"
| "run_functions ext (f # fs) excl X y pt est s components =
     (if f \<notin> set excl then
        (case call_rule ext f X y pt est s of
           Inl e \<Rightarrow> Inl e
         | Inr cs \<Rightarrow> run_functions ext fs excl X y pt est s (components @ cs))
      else run_functions ext fs excl X y pt est s components)"

definition excluded :: "string list option \<Rightarrow> string \<Rightarrow> bool" where
  "excluded exclude_featurizers n =
     (case exclude_featurizers of None \<Rightarrow> False | Some xs \<Rightarrow> xs \<noteq> [] \<and> n \<in> set xs)"

definition functions_to_exclude :: "string list option \<Rightarrow> rule list" where
  "functions_to_exclude exclude_featurizers =
     (if excluded exclude_featurizers ''DatetimeFeaturizer'' then [R_datetime] else [])
     @ (if excluded exclude_featurizers ''EmailFeaturizer'' then [R_email] else [])
     @ (if excluded exclude_featurizers ''URLFeaturizer'' then [R_url] else [])
     @ (if excluded exclude_featurizers ''NaturalLanguageFeaturizer''
        then [R_natural_language] else [])
     @ (if excluded exclude_featurizers ''TimeSeriesFeaturizer''
        then [R_time_series_featurizer] else [])"

definition time_series_functions :: "bool \<Rightarrow> rule list" where
  "time_series_functions include_decomposer =
     [R_label_encoder, R_drop_all_null, R_drop_index_unknown, R_url, R_email,
      R_natural_language, R_imputer, R_time_series_featurizer]
     @ (if include_decomposer then [R_decomposer] else [])
     @ [R_datetime, R_ordinal_encoder, R_ohe, R_drop_nan_rows_transformer, R_sampler,
        R_standard_scaler]"

definition default_functions :: "rule list" where
  "default_functions =
     [R_label_encoder, R_drop_all_null, R_drop_index_unknown, R_url, R_email, R_datetime,
      R_natural_language, R_imputer, R_ordinal_encoder, R_ohe, R_sampler,
      R_standard_scaler]"

definition get_preprocessing_components ::
  "'y externals \<Rightarrow> features \<Rightarrow> 'y \<Rightarrow> ProblemTypes \<Rightarrow> estimator option \<Rightarrow> string option
     \<Rightarrow> string list option \<Rightarrow> bool \<Rightarrow> py_error + component list" where
  "get_preprocessing_components ext X y problem_type estimator_class sampler_name
       exclude_featurizers include_decomposer =
     (if is_multiseries problem_type \<and> \<not> include_decomposer then Inr []
      else
        (let components_functions =
               (if is_multiseries problem_type then [R_decomposer]
                else if is_time_series problem_type
                then time_series_functions include_decomposer
                else default_functions)
         in run_functions ext components_functions (functions_to_exclude exclude_featurizers)
              X y problem_type estimator_class sampler_name []))"

text \<open>
  The rule function that appends a given component (read off the bodies above), and the
  fixed order in which the selector holds the rule functions of a problem type (its
  longest list: the time-series list with the decomposer included).
\<close>

fun emitting_rule :: "component \<Rightarrow> rule" where
  "emitting_rule LabelEncoder = R_label_encoder"
| "emitting_rule DropNullColumns = R_drop_all_null"
| "emitting_rule DropColumns = R_drop_index_unknown"
| "emitting_rule EmailFeaturizer = R_email"
| "emitting_rule URLFeaturizer = R_url"
| "emitting_rule DateTimeFeaturizer = R_datetime"
| "emitting_rule NaturalLanguageFeaturizer = R_natural_language"
| "emitting_rule Imputer = R_imputer"
| "emitting_rule OneHotEncoder = R_ohe"
| "emitting_rule OrdinalEncoder = R_ordinal_encoder"
| "emitting_rule Undersampler = R_sampler"
| "emitting_rule Oversampler = R_sampler"
| "emitting_rule StandardScaler = R_standard_scaler"
| "emitting_rule TimeSeriesFeaturizer = R_time_series_featurizer"
| "emitting_rule STLDecomposer = R_decomposer"
| "emitting_rule DropNaNRowsTransformer = R_drop_nan_rows_transformer"

definition rule_order :: "ProblemTypes \<Rightarrow> rule list" where
  "rule_order problem_type =
     (if is_multiseries problem_type then [R_decomposer]
      else if is_time_series problem_type then time_series_functions True
      else default_functions)"

text \<open>
  Two runs on the same input differ in nothing but the arrangement of their sets. An
  arrangement is one of the set at hand when it holds each element once; the exclusion
  set of a call is the set of the names passed (\<open>None\<close> and the empty collection exclude
  nothing).
\<close>

definition arranges :: "'y externals \<Rightarrow> features \<Rightarrow> bool" where
  "arranges run X =
     (mset (set_order run (remdups (map ltype X))) = mset (remdups (map ltype X)))"

definition exclusion_set :: "string list option \<Rightarrow> string set" where
  "exclusion_set exclude_featurizers =
     (case exclude_featurizers of None \<Rightarrow> {} | Some xs \<Rightarrow> set xs)"

subsection \<open>Sample inputs\<close>

text \<open>
  Concrete inputs on which the theorems below are instantiated: a monthly time index
  with a seasonal period of 12, a table with a datetime, a categorical and a numeric
  column, and a linear-model estimator. \<open>silent_externals\<close> is a data set whose time index
  has no inferrable frequency.
\<close>

definition sample_externals :: "unit externals" where
  "sample_externals = \<lparr>time_index_freq = (\<lambda>X y. Some ''MS''),
     is_freq_valid = (\<lambda>f. f \<in> set [''D'', ''MS'', ''QS'']),
     determine_periodicity = (\<lambda>X y k. if k = 5 then Some 12 else None),
     estimator_unable_to_handle_nans =
       (\<lambda>e. case e of None \<Rightarrow> Inl ValueError
             | Some c \<Rightarrow> Inr (model_family c \<in> set [LINEAR_MODEL, RANDOM_FOREST])),
     set_order = (\<lambda>ts. ts)\<rparr>"

definition silent_externals :: "unit externals" where
  "silent_externals = sample_externals\<lparr>time_index_freq := (\<lambda>X y. None)\<rparr>"

definition sample_X :: features where
  "sample_X =
     [\<lparr>col_name = ''date'', ltype = Datetime, tags = [''time_index''], all_null = False\<rparr>,
      \<lparr>col_name = ''city'', ltype = Categorical, tags = [''category''], all_null = False\<rparr>,
      \<lparr>col_name = ''amount'', ltype = Double, tags = [''numeric''], all_null = False\<rparr>]"

definition ElasticNetRegressor :: estimator where
  "ElasticNetRegressor = \<lparr>est_name = ''Elastic Net Regressor'', model_family = LINEAR_MODEL\<rparr>"

section \<open>The data-check action translator (\<open>pipelines/utils.py\<close>, lines 1117--1164)\<close>












subsection \<open>What the translator is to compute\<close>







subsection \<open>Sample actions\<close>





section \<open>Confusion-matrix normalisation (\<open>model_understanding/metrics.py\<close>, lines 40--75)\<close>




text \<open>
  The normalised matrix holds floating-point numbers; they are modelled by exact rationals
  together with the three special values of IEEE arithmetic, so rounding is outside the
  model while division by zero is inside it: \<open>x / 0\<close> is an infinity for \<open>x \<noteq> 0\<close> and
  not-a-number for \<open>x = 0\<close>.
\<close>

datatype np_float = Fin rat | PInf | NInf | NaN













section \<open>The distribution check (\<open>model_understanding/metrics.py\<close>, lines 367--395)\<close>

text \<open>
  The three statistical tests are scipy's; they are parameters of the model. Each takes
  two samples and gives a p-value, or raises. P-values and the threshold are floats, as in
  the confusion-matrix section: exact rationals (rounding is outside the model) and the
  special values. A p-value can be not-a-number: scipy's chi-square test has \<open>k - 1\<close>
  degrees of freedom on \<open>k\<close> categories, and with one category its p-value is \<open>nan\<close>.
\<close>

record 'a stat_tests =
  chisquare :: "nat list \<Rightarrow> nat list \<Rightarrow> py_error + np_float"
  wilcoxon :: "'a list \<Rightarrow> 'a list \<Rightarrow> py_error + np_float"
  kstest :: "'a list \<Rightarrow> 'a list \<Rightarrow> py_error + np_float"

text \<open>\<open>a < b\<close> on floats: false whenever one of the two is not-a-number.\<close>

fun np_less :: "np_float \<Rightarrow> np_float \<Rightarrow> bool" where
  "np_less NaN _ = False"
| "np_less _ NaN = False"
| "np_less (Fin a) (Fin b) = (a < b)"
| "np_less NInf NInf = False"
| "np_less NInf _ = True"
| "np_less PInf _ = False"
| "np_less (Fin a) PInf = True"
| "np_less (Fin a) NInf = False"

text \<open>
  \<open>Series.value_counts()\<close>: the number of occurrences of each distinct value, largest
  count first.
\<close>

definition value_counts :: "'a list \<Rightarrow> nat list" where
  "value_counts ys = rev (sort (map (count_list ys) (remdups ys)))"

text \<open>\<open>return 0 if p_value < threshold else 1\<close>, on the outcome of a test.\<close>

definition verdict :: "py_error + np_float \<Rightarrow> np_float \<Rightarrow> py_error + nat" where
  "verdict outcome threshold =
     (case outcome of
        Inl e \<Rightarrow> Inl e
      | Inr p_value \<Rightarrow> Inr (if np_less p_value threshold then 0 else 1))"

text \<open>
  The \<open>if\<close>/\<open>elif\<close> chain has no \<open>else\<close>: a problem type that is neither a classification,
  a time-series nor a regression type would leave \<open>p_value\<close> unbound.
\<close>

definition check_distribution ::
  "'a stat_tests \<Rightarrow> 'a list \<Rightarrow> 'a list \<Rightarrow> ProblemTypes \<Rightarrow> np_float \<Rightarrow> py_error + nat"
  where
  "check_distribution tests y_true y_pred problem_type threshold =
     (if is_classification problem_type then
        (let true_value_counts = value_counts y_true;
             pred_value_counts = value_counts y_pred
         in if length true_value_counts \<noteq> length pred_value_counts then Inr 0
            else verdict (chisquare tests pred_value_counts true_value_counts) threshold)
      else if is_time_series problem_type then
        verdict (wilcoxon tests y_true y_pred) threshold
      else if is_regression problem_type then
        verdict (kstest tests y_true y_pred) threshold
      else Inl UnboundLocalError)"

subsection \<open>Sample tests\<close>

text \<open>
  Stand-ins for the tests, on which the theorems are instantiated. The chi-square test
  gives not-a-number on a single category, as scipy's does. Otherwise each test returns
  the p-value 1 on equal samples, as scipy's chi-square test does on observed counts
  equal to the expected ones (its statistic is 0), and the p-value 0 on other samples,
  which is not what scipy computes: it serves only to tell which test decided.
\<close>

definition equal_sample_tests :: "int stat_tests" where
  "equal_sample_tests =
     \<lparr>chisquare = (\<lambda>f_obs f_exp. Inr (if length f_obs = 1 then NaN
                                        else if f_obs = f_exp then Fin 1 else Fin 0)),
      wilcoxon = (\<lambda>x y. Inr (if x = y then Fin 1 else Fin 0)),
      kstest = (\<lambda>x y. Inr (if x = y then Fin 1 else Fin 0))\<rparr>"

section \<open>The graph assemblers (\<open>pipelines/utils.py\<close>, lines 779--1090)\<close>

subsection \<open>Dictionaries, strings and pipelines\<close>

text \<open>
  A Python dictionary keeps its keys in insertion order: it is an association list with
  distinct keys. \<open>d[k] = v\<close> replaces the value of an existing key in place and appends a
  new key at the end; \<open>d.update(other)\<close> does so for every item of \<open>other\<close>, in order.
\<close>

primrec dict_set :: "'k \<Rightarrow> 'v \<Rightarrow> ('k \<times> 'v) list \<Rightarrow> ('k \<times> 'v) list" where
  "dict_set k v [] = [(k, v)]"
| "dict_set k v (p # ps) = (if fst p = k then (k, v) # ps else p # dict_set k v ps)"

definition dict_update :: "('k \<times> 'v) list \<Rightarrow> ('k \<times> 'v) list \<Rightarrow> ('k \<times> 'v) list" where
  "dict_update d other = fold (\<lambda>(k, v). dict_set k v) other d"

definition dict_get :: "('k \<times> 'v) list \<Rightarrow> 'k \<Rightarrow> 'v \<Rightarrow> 'v" where
  "dict_get d k dflt = (case map_of d k of None \<Rightarrow> dflt | Some v \<Rightarrow> v)"

text \<open>\<open>str(n)\<close> for a natural number: its decimal digits.\<close>

definition digit_char :: "nat \<Rightarrow> char" where
  "digit_char d = char_of (48 + d)"

function str_nat :: "nat \<Rightarrow> string" where
  "str_nat n = (if n < 10 then [digit_char n] else str_nat (n div 10) @ [digit_char (n mod 10)])"
  by pat_completeness auto
termination
  by (relation "measure id") auto

declare str_nat.simps [simp del]

definition endswith :: "string \<Rightarrow> string \<Rightarrow> bool" where
  "endswith s suff = suffix suff s"

text \<open>
  Parameter dictionaries: component name to the component's parameters.
\<close>

datatype pvalue = PInt int | PStr string | PNone

type_synonym params = "(string \<times> pvalue) list"
type_synonym pdict = "(string \<times> params) list"

text \<open>
  A component graph in dictionary form: node name to \<open>[component, input, ...]\<close>.
  Components and inputs are written as strings (a component class by its name).
\<close>

type_synonym graph = "(string \<times> string list) list"

text \<open>
  What the assemblers read of an input pipeline: its name, the dictionary and the
  compute order of its component graph, its parameters, and the model family of its last
  component (as \<open>str\<close> prints it).
\<close>

record pipeline =
  pipeline_name :: string
  component_dict :: graph
  compute_order :: "string list"
  pipeline_parameters :: pdict
  model_family_name :: string

text \<open>
  \<open>handle_component_class(name)\<close> looks a component class up by name and raises
  \<open>MissingComponentError\<close> when there is none. The registry of component classes is a
  parameter: it gives, for the name of a component class, its \<open>modifies_target\<close> flag.
\<close>

type_synonym registry = "string \<Rightarrow> bool option"

definition handle_component_class :: "registry \<Rightarrow> string \<Rightarrow> py_error + string" where
  "handle_component_class reg item =
     (case reg item of None \<Rightarrow> Inl MissingComponentError | Some _ \<Rightarrow> Inr item)"

subsection \<open>\<open>_make_pipeline_from_multiple_graphs\<close>\<close>

definition make_new_component_name ::
  "string \<Rightarrow> string \<Rightarrow> nat option \<Rightarrow> string option \<Rightarrow> string" where
  "make_new_component_name name component_name idx sub_name =
     (let idx' = (case idx of None \<Rightarrow> [] | Some i \<Rightarrow> '' '' @ str_nat i)
      in case sub_name of
           None \<Rightarrow> name @ '' Pipeline'' @ idx' @ '' - '' @ component_name
         | Some pn \<Rightarrow>
             if pn \<noteq> [] then pn @ '' Pipeline'' @ idx' @ '' - '' @ component_name
             else name @ '' Pipeline'' @ idx' @ '' - '' @ component_name)"

text \<open>
  \<open>used_names.count(name) + 1 if used_names.count(name) > 0 else None\<close>.
\<close>

definition name_idx_of :: "string list \<Rightarrow> string \<Rightarrow> nat option" where
  "name_idx_of used_names name =
     (if count_list used_names name > 0 then Some (count_list used_names name + 1) else None)"

text \<open>
  \<open>sub_pipeline_names[pipeline.name] if sub_pipeline_names else None\<close>: a missing key
  raises \<open>KeyError\<close>.
\<close>

definition sub_pipeline_name_of ::
  "(string \<times> string) list option \<Rightarrow> string \<Rightarrow> py_error + string option" where
  "sub_pipeline_name_of sub_pipeline_names name =
     (case sub_pipeline_names of
        None \<Rightarrow> Inr None
      | Some d \<Rightarrow>
          if d = [] then Inr None
          else (case map_of d name of None \<Rightarrow> Inl KeyError | Some n \<Rightarrow> Inr (Some n)))"

text \<open>
  The context of the loops over one sub-pipeline: how its names are rewritten, whether
  the problem is a classification problem, and the last of the preceding components.
\<close>

record sub_context =
  rename :: "string \<Rightarrow> string"
  classification :: bool
  last_prior_component :: "string option"
  first_x_component :: string
  the_pipeline :: pipeline
  the_registry :: registry

text \<open>
  One item of a component list, at position \<open>i\<close>, on the state
  \<open>(new_component_list, final_y, parameters)\<close>.
\<close>

type_synonym item_state = "string list \<times> string \<times> pdict"

definition item_step ::
  "sub_context \<Rightarrow> string \<Rightarrow> string \<Rightarrow> nat \<Rightarrow> string \<Rightarrow> item_state \<Rightarrow> py_error + item_state"
  where
  "item_step ctx name new_component_name i item st =
     (case st of (new_component_list, final_y, parameters) \<Rightarrow>
        if i = 0 then
          (case handle_component_class (the_registry ctx) item of
             Inl e \<Rightarrow> Inl e
           | Inr fitted_comp \<Rightarrow>
               Inr (new_component_list @ [fitted_comp], final_y,
                    dict_set new_component_name
                      (dict_get (pipeline_parameters (the_pipeline ctx)) name []) parameters))
        else if item \<notin> set [''X'', ''y''] then
          Inr (new_component_list @ [rename ctx item],
               if endswith item ''.y'' then rename ctx item else final_y, parameters)
        else if item = ''y'' then
          Inr (new_component_list
                 @ [if classification ctx then ''Label Encoder.y'' else ''y''],
               final_y, parameters)
        else if name = first_x_component ctx \<and> last_prior_component ctx \<noteq> None
                \<and> last_prior_component ctx \<noteq> Some [] then
          Inr (new_component_list @ [the (last_prior_component ctx) @ ''.x''], final_y,
               parameters)
        else Inr (new_component_list @ [item], final_y, parameters))"

fun items_loop ::
  "sub_context \<Rightarrow> string \<Rightarrow> string \<Rightarrow> nat \<Rightarrow> string list \<Rightarrow> item_state
     \<Rightarrow> py_error + item_state" where
  "items_loop ctx name new_component_name i [] st = Inr st"
| "items_loop ctx name new_component_name i (item # items) st =
     (case item_step ctx name new_component_name i item st of
        Inl e \<Rightarrow> Inl e
      | Inr st' \<Rightarrow> items_loop ctx name new_component_name (Suc i) items st')"

text \<open>
  The loop over the nodes of one sub-pipeline, on the state
  \<open>(component_graph, parameters, final_y, final_component)\<close>.
\<close>

type_synonym node_state = "graph \<times> pdict \<times> string \<times> string option"

fun nodes_loop ::
  "sub_context \<Rightarrow> (string \<times> string list) list \<Rightarrow> node_state \<Rightarrow> py_error + node_state" where
  "nodes_loop ctx [] st = Inr st"
| "nodes_loop ctx ((name, component_list) # nodes) (component_graph, parameters, final_y, final_component) =
     (let new_component_name = rename ctx name
      in case items_loop ctx name new_component_name 0 component_list ([], final_y, parameters) of
           Inl e \<Rightarrow> Inl e
         | Inr (new_component_list, final_y', parameters') \<Rightarrow>
             nodes_loop ctx nodes
               (dict_set new_component_name new_component_list component_graph, parameters',
                final_y', Some new_component_name))"

text \<open>
  \<open>compute_order[0] if compute_order[0] != "Label Encoder" else compute_order[1]\<close>, and
  \<open>compute_order[-1]\<close>: each raises \<open>IndexError\<close> out of range. The former is the
  same in every iteration of the loop over the nodes; it is computed when the first
  iteration starts.
\<close>

definition first_x_component_of :: "string list \<Rightarrow> py_error + string" where
  "first_x_component_of order =
     (case order of
        [] \<Rightarrow> Inl IndexError
      | c0 # rest \<Rightarrow>
          if c0 \<noteq> ''Label Encoder'' then Inr c0
          else (case rest of [] \<Rightarrow> Inl IndexError | c1 # _ \<Rightarrow> Inr c1))"

definition last_of :: "'a list \<Rightarrow> py_error + 'a" where
  "last_of xs = (if xs = [] then Inl IndexError else Inr (last xs))"

text \<open>
  The loop over the input pipelines. Its state holds the graph, the parameters, the used
  names, the final components and, once a pipeline has been processed, the values that
  \<open>final_y\<close> and \<open>final_y_candidate\<close> hold after its iteration.
\<close>

record assembly =
  component_graph :: graph
  parameters_dict :: pdict
  used_names :: "string list"
  final_components :: "string option list"
  final_ys :: "(string \<times> string option) option"

definition pipeline_step ::
  "registry \<Rightarrow> bool \<Rightarrow> string option \<Rightarrow> (string \<times> string) list option \<Rightarrow> pipeline
     \<Rightarrow> assembly \<Rightarrow> py_error + assembly" where
  "pipeline_step reg is_cls last_prior sub_pipeline_names p a =
     (let component_pipeline_name = pipeline_name p;
          name_idx = name_idx_of (used_names a) component_pipeline_name
      in case sub_pipeline_name_of sub_pipeline_names (pipeline_name p) of
           Inl e \<Rightarrow> Inl e
         | Inr sub_pipeline_name \<Rightarrow>
        (let mk = (\<lambda>c. make_new_component_name component_pipeline_name c name_idx
                          sub_pipeline_name)
         in case last_of (compute_order p) of
              Inl e \<Rightarrow> Inl e
            | Inr last_component \<Rightarrow>
           (case reg last_component of
              None \<Rightarrow> Inl MissingComponentError
            | Some modifies_target \<Rightarrow>
           (let final_y_candidate =
                  (if \<not> modifies_target then None else Some (mk last_component @ ''.y''))
            in if component_dict p = [] then
                 Inr (a\<lparr>used_names := used_names a @ [component_pipeline_name],
                        final_components := final_components a @ [None],
                        final_ys := Some (''y'', final_y_candidate)\<rparr>)
               else
                 (case first_x_component_of (compute_order p) of
                    Inl e \<Rightarrow> Inl e
                  | Inr first_x \<Rightarrow>
                      (case nodes_loop
                              \<lparr>rename = mk, classification = is_cls,
                               last_prior_component = last_prior, first_x_component = first_x,
                               the_pipeline = p, the_registry = reg\<rparr>
                              (component_dict p)
                              (component_graph a, parameters_dict a, ''y'', None) of
                         Inl e \<Rightarrow> Inl e
                       | Inr (g, ps, final_y, final_component) \<Rightarrow>
                           Inr (a\<lparr>component_graph := g, parameters_dict := ps,
                                  used_names := used_names a @ [component_pipeline_name],
                                  final_components := final_components a @ [final_component],
                                  final_ys := Some (final_y, final_y_candidate)\<rparr>)))))))"

fun pipelines_loop ::
  "registry \<Rightarrow> bool \<Rightarrow> string option \<Rightarrow> (string \<times> string) list option \<Rightarrow> pipeline list
     \<Rightarrow> assembly \<Rightarrow> py_error + assembly" where
  "pipelines_loop reg is_cls last_prior sub_pipeline_names [] a = Inr a"
| "pipelines_loop reg is_cls last_prior sub_pipeline_names (p # ps) a =
     (case pipeline_step reg is_cls last_prior sub_pipeline_names p a of
        Inl e \<Rightarrow> Inl e
      | Inr a' \<Rightarrow> pipelines_loop reg is_cls last_prior sub_pipeline_names ps a')"

text \<open>\<open>[comp + ".x" for comp in final_components]\<close>: \<open>None + ".x"\<close> raises \<open>TypeError\<close>.\<close>

fun x_outputs :: "string option list \<Rightarrow> py_error + string list" where
  "x_outputs [] = Inr []"
| "x_outputs (None # cs) = Inl TypeError"
| "x_outputs (Some c # cs) =
     (case x_outputs cs of Inl e \<Rightarrow> Inl e | Inr xs \<Rightarrow> Inr ((c @ ''.x'') # xs))"

text \<open>
  The pipeline classes the assembler knows: the final dictionary lookup raises
  \<open>KeyError\<close> for the multiseries problem type.
\<close>

definition has_pipeline_class :: "ProblemTypes \<Rightarrow> bool" where
  "has_pipeline_class problem_type = (problem_type \<noteq> MULTISERIES_TIME_SERIES_REGRESSION)"

text \<open>
  The post-components: the first of them is rewired to the final components of all
  branches and the resolved \<open>y\<close>, then all are added to the graph. The result is the
  graph and \<open>last_pre_estimator_component\<close>.
\<close>

definition add_post_components ::
  "graph \<Rightarrow> string option list \<Rightarrow> string \<Rightarrow> graph
     \<Rightarrow> py_error + graph \<times> string option" where
  "add_post_components g finals final_y post =
     (if post \<noteq> [] then
        (case x_outputs finals of
           Inl e \<Rightarrow> Inl e
         | Inr xs \<Rightarrow>
             (let first_pre_estimator_component = fst (hd post);
                  post' = dict_set first_pre_estimator_component
                            ([first_pre_estimator_component] @ xs @ [final_y]) post
              in Inr (dict_update g post', Some (fst (last post')))))
      else Inr (g, None))"

definition add_estimator ::
  "graph \<Rightarrow> string \<Rightarrow> string option list \<Rightarrow> string \<Rightarrow> string option
     \<Rightarrow> py_error + graph" where
  "add_estimator g estimator_name finals final_y last_pre_estimator_component =
     (case last_pre_estimator_component of
        Some l \<Rightarrow>
          if l \<noteq> [] then Inr (dict_set estimator_name [estimator_name, l @ ''.x'', l @ ''.y''] g)
          else (case x_outputs finals of
                  Inl e \<Rightarrow> Inl e
                | Inr xs \<Rightarrow> Inr (dict_set estimator_name ([estimator_name] @ xs @ [final_y]) g))
      | None \<Rightarrow>
          (case x_outputs finals of
             Inl e \<Rightarrow> Inl e
           | Inr xs \<Rightarrow> Inr (dict_set estimator_name ([estimator_name] @ xs @ [final_y]) g)))"

text \<open>
  The graph the loop starts from: the pre-components, with the shared label encoder for
  a classification problem.
\<close>

definition initial_graph :: "ProblemTypes \<Rightarrow> graph \<Rightarrow> graph" where
  "initial_graph problem_type pre =
     (if is_classification problem_type
      then dict_update pre [(''Label Encoder'', [''Label Encoder'', ''X'', ''y''])]
      else pre)"

definition or_empty :: "('k \<times> 'v) list option \<Rightarrow> ('k \<times> 'v) list" where
  "or_empty d = (case d of None \<Rightarrow> [] | Some x \<Rightarrow> x)"

text \<open>
  What follows the loop over the pipelines: \<open>final_y\<close> and \<open>final_y_candidate\<close> are
  unbound when no pipeline was given.
\<close>

definition finish_assembly ::
  "assembly \<Rightarrow> string \<Rightarrow> ProblemTypes \<Rightarrow> graph \<Rightarrow> py_error + graph \<times> pdict" where
  "finish_assembly a estimator_name problem_type post =
     (case final_ys a of
        None \<Rightarrow> Inl UnboundLocalError
      | Some (final_y_loop, final_y_candidate) \<Rightarrow>
          (let final_y = (case final_y_candidate of None \<Rightarrow> final_y_loop | Some c \<Rightarrow> c)
           in case add_post_components (component_graph a) (final_components a) final_y post of
                Inl e \<Rightarrow> Inl e
              | Inr (graph1, last_pre_estimator_component) \<Rightarrow>
                  (case add_estimator graph1 estimator_name (final_components a) final_y
                          last_pre_estimator_component of
                     Inl e \<Rightarrow> Inl e
                   | Inr graph2 \<Rightarrow>
                       if has_pipeline_class problem_type then Inr (graph2, parameters_dict a)
                       else Inl KeyError)))"

text \<open>
  The assembler. \<open>parameters\<close> is deep-copied, so it is taken by value; the result is the
  component graph and the parameters handed to the pipeline class.
\<close>

definition make_pipeline_from_multiple_graphs ::
  "registry \<Rightarrow> pipeline list \<Rightarrow> string \<Rightarrow> ProblemTypes \<Rightarrow> pdict option
     \<Rightarrow> (string \<times> string) list option \<Rightarrow> graph option \<Rightarrow> graph option
     \<Rightarrow> py_error + graph \<times> pdict" where
  "make_pipeline_from_multiple_graphs reg input_pipelines estimator_name problem_type
       parameters sub_pipeline_names pre_pipeline_components post_pipelines_components =
     (let pre = or_empty pre_pipeline_components;
          last_prior_component = (if pre \<noteq> [] then Some (fst (last pre)) else None)
      in case pipelines_loop reg (is_classification problem_type) last_prior_component
                sub_pipeline_names input_pipelines
                \<lparr>component_graph = initial_graph problem_type pre,
                 parameters_dict = or_empty parameters, used_names = [],
                 final_components = [], final_ys = None\<rparr> of
           Inl e \<Rightarrow> Inl e
         | Inr a \<Rightarrow>
             finish_assembly a estimator_name problem_type
               (or_empty post_pipelines_components))"


subsection \<open>The node names the multi-graph assembler is to produce\<close>

text \<open>
  The specification's reading of the renaming scheme: a sub-pipeline is labelled by its
  entry in \<open>sub_pipeline_names\<close> when there is a non-empty one and by its own name
  otherwise; the \<open>n\<close>-th occurrence of a pipeline name, \<open>n \<ge> 2\<close>, carries the suffix
  \<open>" n"\<close>; a node \<open>c\<close> of the sub-pipeline becomes \<open>"{label} Pipeline{suffix} - {c}"\<close>. The
  shared nodes are the pre-components, the label encoder of a classification problem, the
  post-components and the final estimator.
\<close>

definition alias_of :: "(string \<times> string) list option \<Rightarrow> string \<Rightarrow> string option" where
  "alias_of sub_pipeline_names name =
     (case sub_pipeline_name_of sub_pipeline_names name of Inl e \<Rightarrow> None | Inr s \<Rightarrow> s)"

definition label_of :: "(string \<times> string) list option \<Rightarrow> string \<Rightarrow> string" where
  "label_of sub_pipeline_names name =
     (case alias_of sub_pipeline_names name of
        None \<Rightarrow> name
      | Some pn \<Rightarrow> if pn \<noteq> [] then pn else name)"

definition occurrence_suffix :: "nat \<Rightarrow> string" where
  "occurrence_suffix earlier = (if earlier = 0 then [] else '' '' @ str_nat (earlier + 1))"

definition node_name :: "string \<Rightarrow> nat \<Rightarrow> string \<Rightarrow> string" where
  "node_name label earlier c = label @ '' Pipeline'' @ occurrence_suffix earlier @ '' - '' @ c"

fun renamed_keys ::
  "(string \<times> string) list option \<Rightarrow> string list \<Rightarrow> pipeline list \<Rightarrow> string list" where
  "renamed_keys subs used [] = []"
| "renamed_keys subs used (p # ps) =
     map (node_name (label_of subs (pipeline_name p)) (count_list used (pipeline_name p)))
       (map fst (component_dict p))
     @ renamed_keys subs (used @ [pipeline_name p]) ps"

definition shared_keys :: "ProblemTypes \<Rightarrow> graph option \<Rightarrow> graph option \<Rightarrow> string \<Rightarrow> string list"
  where
  "shared_keys problem_type pre post estimator_name =
     map fst (or_empty pre)
     @ (if is_classification problem_type then [''Label Encoder''] else [])
     @ map fst (or_empty post) @ [estimator_name]"

definition expected_keys ::
  "ProblemTypes \<Rightarrow> graph option \<Rightarrow> graph option \<Rightarrow> string
     \<Rightarrow> (string \<times> string) list option \<Rightarrow> pipeline list \<Rightarrow> string list" where
  "expected_keys problem_type pre post estimator_name subs ps =
     map fst (or_empty pre)
     @ (if is_classification problem_type then [''Label Encoder''] else [])
     @ renamed_keys subs [] ps
     @ map fst (or_empty post) @ [estimator_name]"

definition dash_free :: "string \<Rightarrow> bool" where
  "dash_free s = (CHR ''-'' \<notin> set s)"

definition is_digit :: "char \<Rightarrow> bool" where
  "is_digit c = (48 \<le> (of_char c :: nat) \<and> (of_char c :: nat) \<le> 57)"

subsection \<open>Sample pipelines\<close>

definition sample_registry :: registry where
  "sample_registry n =
     (if n \<in> set [''Imputer'', ''One Hot Encoder'', ''Select Columns Transformer'',
                   ''DFS Transformer'', ''Random Forest Classifier''] then Some False
      else if n \<in> set [''Label Encoder'', ''Target Imputer'', ''Drop NaN Rows Transformer'']
      then Some True else None)"

text \<open>
  A preprocessing pipeline. Its last component is a transformer, whose model family is
  \<open>ModelFamily.NONE\<close>.
\<close>

definition linear_pipeline :: "string \<Rightarrow> pipeline" where
  "linear_pipeline n =
     \<lparr>pipeline_name = n,
      component_dict = [(''Imputer'', [''Imputer'', ''X'', ''y'']),
                        (''One Hot Encoder'', [''One Hot Encoder'', ''Imputer.x'', ''y''])],
      compute_order = [''Imputer'', ''One Hot Encoder''],
      pipeline_parameters = [(''Imputer'', [(''numeric_impute_strategy'', PStr ''mean'')])],
      model_family_name = ''None''\<rparr>"

subsection \<open>\<open>_make_stacked_ensemble_pipeline\<close>\<close>

text \<open>
  The stacked-ensemble assembler binds \<open>parameters\<close> to the dictionary object the caller
  passed as \<open>label_encoder_params\<close> and then writes to it, so the model keeps dictionary
  objects in a store: a heap of parameter dictionaries, addressed by position. A
  dictionary argument is an address (or \<open>None\<close>); a dictionary display \<open>{...}\<close> allocates.
  The cache of fitted components (\<open>cached_data\<close>, \<open>_set_cache_data\<close>) neither reads nor
  writes the graph and the parameters and is left out.
\<close>

type_synonym heap = "pdict list"

definition alloc :: "heap \<Rightarrow> pdict \<Rightarrow> nat \<times> heap" where
  "alloc h d = (length h, h @ [d])"

definition stacked_new_component_name :: "string \<Rightarrow> string \<Rightarrow> nat option \<Rightarrow> string" where
  "stacked_new_component_name model_type component_name idx =
     (let idx' = (case idx of None \<Rightarrow> [] | Some i \<Rightarrow> '' '' @ str_nat i)
      in model_type @ '' Pipeline'' @ idx' @ '' - '' @ component_name)"

text \<open>
  One item of a component list, at position \<open>i\<close>, on the state
  \<open>(new_component_list, ensemble_y, heap)\<close>; \<open>parameters\<close> is the address the variable
  holds. The test for \<open>ensemble_y\<close> follows the \<open>if\<close>/\<open>elif\<close> chain.
\<close>

type_synonym stacked_item_state = "string list \<times> string \<times> heap"

definition stacked_item_step ::
  "registry \<Rightarrow> pipeline \<Rightarrow> bool \<Rightarrow> (string \<Rightarrow> string) \<Rightarrow> nat \<Rightarrow> string \<Rightarrow> string
     \<Rightarrow> nat \<Rightarrow> string \<Rightarrow> stacked_item_state \<Rightarrow> py_error + stacked_item_state" where
  "stacked_item_step reg p is_cls mk parameters name new_component_name i item st =
     (case st of (new_component_list, ensemble_y, h) \<Rightarrow>
        (case (if i = 0 then
                 (case handle_component_class reg item of
                    Inl e \<Rightarrow> Inl e
                  | Inr fitted_comp \<Rightarrow>
                      Inr (new_component_list @ [fitted_comp],
                           h[parameters := dict_set new_component_name
                                (dict_get (pipeline_parameters p) name []) (h ! parameters)]))
               else if item \<notin> set [''X'', ''y''] then Inr (new_component_list @ [mk item], h)
               else if item = ''y'' then
                 Inr (new_component_list @ [if is_cls then ''Label Encoder.y'' else ''y''], h)
               else Inr (new_component_list @ [item], h)) of
           Inl e \<Rightarrow> Inl e
         | Inr (new_component_list', h') \<Rightarrow>
             Inr (new_component_list',
                  if i \<noteq> 0 \<and> endswith item ''.y'' then mk item else ensemble_y, h')))"

fun stacked_items_loop ::
  "registry \<Rightarrow> pipeline \<Rightarrow> bool \<Rightarrow> (string \<Rightarrow> string) \<Rightarrow> nat \<Rightarrow> string \<Rightarrow> string
     \<Rightarrow> nat \<Rightarrow> string list \<Rightarrow> stacked_item_state \<Rightarrow> py_error + stacked_item_state" where
  "stacked_items_loop reg p is_cls mk parameters name new_component_name i [] st = Inr st"
| "stacked_items_loop reg p is_cls mk parameters name new_component_name i (item # items) st =
     (case stacked_item_step reg p is_cls mk parameters name new_component_name i item st of
        Inl e \<Rightarrow> Inl e
      | Inr st' \<Rightarrow>
          stacked_items_loop reg p is_cls mk parameters name new_component_name (Suc i) items st')"

text \<open>
  The loop over the nodes of one input pipeline, on the state
  \<open>(component_graph, heap, ensemble_y, final_component)\<close>.
\<close>

type_synonym stacked_node_state = "graph \<times> heap \<times> string \<times> string option"

fun stacked_nodes_loop ::
  "registry \<Rightarrow> pipeline \<Rightarrow> bool \<Rightarrow> (string \<Rightarrow> string) \<Rightarrow> nat
     \<Rightarrow> (string \<times> string list) list \<Rightarrow> stacked_node_state \<Rightarrow> py_error + stacked_node_state"
  where
  "stacked_nodes_loop reg p is_cls mk parameters [] st = Inr st"
| "stacked_nodes_loop reg p is_cls mk parameters ((name, component_list) # nodes)
       (g, h, ensemble_y, final_component) =
     (let new_component_name = mk name
      in case stacked_items_loop reg p is_cls mk parameters name new_component_name 0
                component_list ([], ensemble_y, h) of
           Inl e \<Rightarrow> Inl e
         | Inr (new_component_list, ensemble_y', h') \<Rightarrow>
             stacked_nodes_loop reg p is_cls mk parameters nodes
               (dict_set new_component_name new_component_list g, h', ensemble_y',
                Some new_component_name))"

text \<open>
  The loop over the input pipelines. \<open>ensemble_y\<close> is unbound until a pipeline has been
  processed. \<open>pipeline.component_graph[-1]\<close> raises \<open>IndexError\<close> on an empty graph.
\<close>

record stacked_assembly =
  sa_component_graph :: graph
  sa_heap :: heap
  used_model_families :: "string list"
  sa_final_components :: "string option list"
  sa_ensemble_y :: "string option"

definition stacked_pipeline_step ::
  "registry \<Rightarrow> bool \<Rightarrow> nat \<Rightarrow> pipeline \<Rightarrow> stacked_assembly \<Rightarrow> py_error + stacked_assembly"
  where
  "stacked_pipeline_step reg is_cls parameters p a =
     (if compute_order p = [] then Inl IndexError
      else
        (let model_family = model_family_name p;
             model_family_idx = name_idx_of (used_model_families a) model_family;
             mk = (\<lambda>c. stacked_new_component_name model_family c model_family_idx)
         in case stacked_nodes_loop reg p is_cls mk parameters (component_dict p)
                   (sa_component_graph a, sa_heap a, ''y'', None) of
              Inl e \<Rightarrow> Inl e
            | Inr (g, h, ensemble_y, final_component) \<Rightarrow>
                Inr (a\<lparr>sa_component_graph := g, sa_heap := h,
                       used_model_families := used_model_families a @ [model_family],
                       sa_final_components := sa_final_components a @ [final_component],
                       sa_ensemble_y := Some ensemble_y\<rparr>)))"

fun stacked_pipelines_loop ::
  "registry \<Rightarrow> bool \<Rightarrow> nat \<Rightarrow> pipeline list \<Rightarrow> stacked_assembly
     \<Rightarrow> py_error + stacked_assembly" where
  "stacked_pipelines_loop reg is_cls parameters [] a = Inr a"
| "stacked_pipelines_loop reg is_cls parameters (p # ps) a =
     (case stacked_pipeline_step reg is_cls parameters p a of
        Inl e \<Rightarrow> Inl e
      | Inr a' \<Rightarrow> stacked_pipelines_loop reg is_cls parameters ps a')"

text \<open>
  \<open>parameters = label_encoder_params or {}\<close>: the caller's dictionary object itself
  unless it is \<open>None\<close> or empty. For a classification problem \<open>parameters.update(...)\<close>
  writes to that object; otherwise \<open>parameters\<close> is rebound to a new dictionary.
\<close>

definition stacked_parameters ::
  "bool \<Rightarrow> pvalue \<Rightarrow> nat option \<Rightarrow> heap \<Rightarrow> nat \<times> heap" where
  "stacked_parameters is_cls n_jobs label_encoder_params h =
     (let (parameters, h1) =
            (case label_encoder_params of
               None \<Rightarrow> alloc h []
             | Some a \<Rightarrow> if h ! a \<noteq> [] then (a, h) else alloc h [])
      in if is_cls then
           (parameters,
            h1[parameters := dict_update (h1 ! parameters)
                 [(''Stacked Ensemble Classifier'', [(''n_jobs'', n_jobs)])]])
         else alloc h1 [(''Stacked Ensemble Regressor'', [(''n_jobs'', n_jobs)])])"

text \<open>
  The assembler: the component graph, the address of the parameters handed to the
  pipeline class, and the store after the call.
\<close>

definition make_stacked_ensemble_pipeline ::
  "registry \<Rightarrow> pipeline list \<Rightarrow> ProblemTypes \<Rightarrow> pvalue \<Rightarrow> nat option \<Rightarrow> heap
     \<Rightarrow> py_error + graph \<times> nat \<times> heap" where
  "make_stacked_ensemble_pipeline reg input_pipelines problem_type n_jobs label_encoder_params h =
     (let is_cls = is_classification problem_type;
          graph0 = (if is_cls then [(''Label Encoder'', [''Label Encoder'', ''X'', ''y''])] else []);
          (parameters, h1) = stacked_parameters is_cls n_jobs label_encoder_params h;
          estimator_name = (if is_cls then ''Stacked Ensemble Classifier''
                            else ''Stacked Ensemble Regressor'')
      in if problem_type \<notin> set [BINARY, MULTICLASS, REGRESSION] then Inl KeyError
         else
           (case stacked_pipelines_loop reg is_cls parameters input_pipelines
                   \<lparr>sa_component_graph = graph0, sa_heap = h1, used_model_families = [],
                    sa_final_components = [], sa_ensemble_y = None\<rparr> of
              Inl e \<Rightarrow> Inl e
            | Inr a \<Rightarrow>
                (case x_outputs (sa_final_components a) of
                   Inl e \<Rightarrow> Inl e
                 | Inr xs \<Rightarrow>
                     (case sa_ensemble_y a of
                        None \<Rightarrow> Inl UnboundLocalError
                      | Some ensemble_y \<Rightarrow>
                          Inr (dict_set estimator_name ([estimator_name] @ xs @ [ensemble_y])
                                 (sa_component_graph a),
                               parameters, sa_heap a)))))"

text \<open>
  An input pipeline that ends in its estimator, and a caller's label-encoder parameters,
  on which the theorems are instantiated.
\<close>

definition forest_pipeline :: pipeline where
  "forest_pipeline =
     \<lparr>pipeline_name = ''Random Forest Classifier w/ Imputer'',
      component_dict = [(''Imputer'', [''Imputer'', ''X'', ''y'']),
                        (''Random Forest Classifier'',
                         [''Random Forest Classifier'', ''Imputer.x'', ''y''])],
      compute_order = [''Imputer'', ''Random Forest Classifier''],
      pipeline_parameters = [(''Imputer'', [(''numeric_impute_strategy'', PStr ''mean'')]),
                             (''Random Forest Classifier'', [(''n_estimators'', PInt 100)])],
      model_family_name = ''Random Forest''\<rparr>"

definition caller_label_encoder_params :: pdict where
  "caller_label_encoder_params = [(''Label Encoder'', [(''positive_class'', PStr ''yes'')])]"

section \<open>Properties of the preprocessing selector\<close>

subsection \<open>The loop over the rule functions\<close>

lemmas rule_defs = get_label_encoder_def get_drop_all_null_def get_drop_index_unknown_def
  get_url_def get_email_def get_datetime_def get_natural_language_def get_imputer_def
  get_ordinal_encoder_def get_ohe_def get_sampler_def get_standard_scaler_def
  get_time_series_featurizer_def get_drop_nan_rows_transformer_def
  sampler_components_def Let_def

lemma run_functions_mem:
  "run_functions ext fs excl X y pt est s acc = Inr cs \<Longrightarrow>
   c \<in> set cs \<longleftrightarrow> c \<in> set acc \<or>
     (\<exists>f \<in> set fs. f \<notin> set excl \<and>
        (\<exists>r. call_rule ext f X y pt est s = Inr r \<and> c \<in> set r))"
proof (induction fs arbitrary: acc)
  case Nil
  then show ?case by auto
next
  case (Cons f fs)
  show ?case
  proof (cases "f \<in> set excl")
    case True
    with Cons.prems have "run_functions ext fs excl X y pt est s acc = Inr cs" by simp
    from Cons.IH[OF this] True show ?thesis by auto
  next
    case False
    with Cons.prems obtain r where r: "call_rule ext f X y pt est s = Inr r"
      and rest: "run_functions ext fs excl X y pt est s (acc @ r) = Inr cs"
      by (auto split: sum.splits)
    from Cons.IH[OF rest] r False show ?thesis by auto
  qed
qed

lemma run_functions_ok:
  "run_functions ext fs excl X y pt est s acc = Inr cs \<Longrightarrow> f \<in> set fs \<Longrightarrow> f \<notin> set excl
   \<Longrightarrow> \<exists>r. call_rule ext f X y pt est s = Inr r"
proof (induction fs arbitrary: acc)
  case Nil
  then show ?case by simp
next
  case (Cons g fs)
  then show ?case by (auto split: sum.splits if_splits)
qed

lemma emits_own:
  "call_rule ext f X y pt est s = Inr r \<Longrightarrow>
     map emitting_rule r = [] \<or> map emitting_rule r = [f]"
  by (cases f) (auto simp: rule_defs get_decomposer_def split: if_splits option.splits sum.splits)

lemma run_functions_rules:
  "run_functions ext fs excl X y pt est s acc = Inr cs \<Longrightarrow>
   \<exists>rest. cs = acc @ rest \<and> subseq (map emitting_rule rest) fs"
proof (induction fs arbitrary: acc)
  case Nil
  then show ?case by simp
next
  case (Cons f fs)
  show ?case
  proof (cases "f \<in> set excl")
    case True
    with Cons.prems have "run_functions ext fs excl X y pt est s acc = Inr cs" by simp
    from Cons.IH[OF this] show ?thesis by (auto intro: subseq_Cons')
  next
    case False
    with Cons.prems obtain r where r: "call_rule ext f X y pt est s = Inr r"
      and rest: "run_functions ext fs excl X y pt est s (acc @ r) = Inr cs"
      by (auto split: sum.splits)
    from Cons.IH[OF rest] obtain rest' where cs: "cs = (acc @ r) @ rest'"
      and sub: "subseq (map emitting_rule rest') fs" by blast
    from emits_own[OF r] sub have "subseq (map emitting_rule (r @ rest')) (f # fs)"
      by auto
    with cs show ?thesis by auto
  qed
qed

lemma R_decomposer_kept: "R_decomposer \<notin> set (functions_to_exclude excl)"
  by (simp add: functions_to_exclude_def)

lemma R_sampler_kept: "R_sampler \<notin> set (functions_to_exclude excl)"
  by (simp add: functions_to_exclude_def)

lemma STL_only_from_decomposer:
  "call_rule ext f X y pt est s = Inr r \<Longrightarrow> STLDecomposer \<in> set r \<Longrightarrow> f = R_decomposer"
  by (cases f) (auto simp: rule_defs split: if_splits option.splits sum.splits)

lemma sampler_only_from_sampler:
  "call_rule ext f X y pt est s = Inr r \<Longrightarrow> Undersampler \<in> set r \<or> Oversampler \<in> set r
     \<Longrightarrow> f = R_sampler"
  by (cases f) (auto simp: rule_defs get_decomposer_def split: if_splits option.splits sum.splits)

lemma decomposer_in_functions: "R_decomposer \<in> set (time_series_functions inc) \<longleftrightarrow> inc"
  by (simp add: time_series_functions_def)

lemma decomposer_not_default: "R_decomposer \<notin> set default_functions"
  by (simp add: default_functions_def)

lemma STL_in_get_decomposer:
  "STLDecomposer \<in> set (get_decomposer ext X y pt) \<longleftrightarrow>
     is_time_series pt \<and> is_regression pt \<and>
     (is_multiseries pt \<or>
      (\<exists>freq p. time_index_freq ext X y = Some freq \<and> is_freq_valid ext freq \<and>
         determine_periodicity ext X y (rel_max_order freq) = Some p \<and>
         p \<le> DECOMPOSER_PERIOD_CAP))"
proof (cases "time_index_freq ext X y")
  case None
  then show ?thesis by (simp add: get_decomposer_def)
next
  case (Some freq)
  show ?thesis
  proof (cases "determine_periodicity ext X y (rel_max_order freq)")
    case None
    with Some show ?thesis by (simp add: get_decomposer_def)
  next
    case (Some p)
    with \<open>time_index_freq ext X y = Some freq\<close> show ?thesis
      by (simp add: get_decomposer_def)
  qed
qed

lemma selector_run:
  assumes "get_preprocessing_components ext X y pt est s excl inc = Inr cs"
    and "\<not> is_multiseries pt"
  shows "run_functions ext
           (if is_time_series pt then time_series_functions inc else default_functions)
           (functions_to_exclude excl) X y pt est s [] = Inr cs"
  using assms by (simp add: get_preprocessing_components_def)

lemma selector_multiseries:
  "get_preprocessing_components ext X y MULTISERIES_TIME_SERIES_REGRESSION est s excl inc
     = Inr (if inc then [STLDecomposer] else [])"
  by (simp add: get_preprocessing_components_def functions_to_exclude_def get_decomposer_def)

lemma is_multiseries_iff: "is_multiseries pt \<longleftrightarrow> pt = MULTISERIES_TIME_SERIES_REGRESSION"
  by (cases pt) auto

lemma get_sampler_Inr:
  "get_sampler s = Inr r \<Longrightarrow> (Undersampler \<in> set r \<or> Oversampler \<in> set r) \<longleftrightarrow> s \<noteq> None"
  by (auto simp: get_sampler_def sampler_components_def split: option.splits if_splits)

lemma distinct_rule_order: "distinct (rule_order pt)"
  by (simp add: rule_order_def time_series_functions_def default_functions_def)

lemma subseq_ts_functions: "subseq (time_series_functions inc) (time_series_functions True)"
  by (cases inc) (auto simp: time_series_functions_def)

lemma selector_order:
  assumes "get_preprocessing_components ext X y pt est s excl inc = Inr cs"
  shows "subseq (map emitting_rule cs) (rule_order pt)"
proof (cases "is_multiseries pt")
  case True
  then have pt: "pt = MULTISERIES_TIME_SERIES_REGRESSION" by (simp add: is_multiseries_iff)
  from assms have "cs = (if inc then [STLDecomposer] else [])"
    unfolding pt selector_multiseries by simp
  then show ?thesis by (simp add: pt rule_order_def)
next
  case False
  from run_functions_rules[OF selector_run[OF assms False]]
  have sub: "subseq (map emitting_rule cs)
     (if is_time_series pt then time_series_functions inc else default_functions)" by simp
  show ?thesis
  proof (cases "is_time_series pt")
    case True
    with sub have "subseq (map emitting_rule cs) (time_series_functions inc)" by simp
    from subseq_order.trans[OF this subseq_ts_functions] True False show ?thesis
      by (simp add: rule_order_def)
  next
    case F: False
    with sub False show ?thesis by (simp add: rule_order_def)
  qed
qed

lemma sample_run:
  "get_preprocessing_components sample_externals sample_X () TIME_SERIES_REGRESSION
     (Some ElasticNetRegressor) None None True
   = Inr [Imputer, TimeSeriesFeaturizer, STLDecomposer, DateTimeFeaturizer, OneHotEncoder,
          DropNaNRowsTransformer, StandardScaler]"
  by code_simp

subsection \<open>C4: when the seasonal decomposer is selected\<close>

text \<open>
  Claim C4 says that \<open>STLDecomposer\<close> is selected only if the problem is a regression
  problem, is not multiseries, and the time index has an inferrable, valid frequency with
  a seasonal period of at most 1000. The code selects it for the multiseries problem type
  too, with no look at the time index: \<open>_get_decomposer\<close> has a branch of its own for
  \<open>is_multiseries\<close>. The counterexample is a multiseries input whose time index has no
  inferrable frequency.
\<close>

theorem decomposer_multiseries_counterexample:
  "get_preprocessing_components silent_externals sample_X ()
       MULTISERIES_TIME_SERIES_REGRESSION (Some ElasticNetRegressor) None None True
     = Inr [STLDecomposer]
   \<and> is_multiseries MULTISERIES_TIME_SERIES_REGRESSION
   \<and> time_index_freq silent_externals sample_X () = None"
  by (simp add: selector_multiseries silent_externals_def sample_externals_def)

text \<open>
  C4 as amended: whenever the selector returns a list, \<open>STLDecomposer\<close> is in it exactly
  when \<open>include_decomposer\<close> is set, the problem type is a time-series regression type,
  and either the problem is multiseries or the time index has an inferrable frequency that
  \<open>is_freq_valid\<close> accepts and \<open>determine_periodicity\<close> finds a seasonal period of at most
  \<open>DECOMPOSER_PERIOD_CAP = 1000\<close>.
\<close>

theorem decomposer_selected_iff:
  assumes "get_preprocessing_components ext X y pt est s excl inc = Inr cs"
  shows "STLDecomposer \<in> set cs \<longleftrightarrow>
     inc \<and> is_time_series pt \<and> is_regression pt \<and>
     (is_multiseries pt \<or>
      (\<exists>freq p. time_index_freq ext X y = Some freq \<and> is_freq_valid ext freq \<and>
         determine_periodicity ext X y (rel_max_order freq) = Some p \<and> p \<le> 1000))"
proof (cases "is_multiseries pt")
  case True
  then have pt: "pt = MULTISERIES_TIME_SERIES_REGRESSION" by (simp add: is_multiseries_iff)
  from assms have "cs = (if inc then [STLDecomposer] else [])"
    unfolding pt selector_multiseries by simp
  then show ?thesis by (simp add: pt)
next
  case False
  define fs where
    "fs = (if is_time_series pt then time_series_functions inc else default_functions)"
  have run: "run_functions ext fs (functions_to_exclude excl) X y pt est s [] = Inr cs"
    unfolding fs_def by (rule selector_run[OF assms False])
  have fs: "R_decomposer \<in> set fs \<longleftrightarrow> inc \<and> is_time_series pt"
    by (simp add: fs_def decomposer_in_functions decomposer_not_default)
  have "STLDecomposer \<in> set cs \<longleftrightarrow>
      R_decomposer \<in> set fs \<and> STLDecomposer \<in> set (get_decomposer ext X y pt)"
  proof
    assume "STLDecomposer \<in> set cs"
    with run_functions_mem[OF run, of STLDecomposer]
    obtain f r where f: "f \<in> set fs" and r: "call_rule ext f X y pt est s = Inr r"
      and m: "STLDecomposer \<in> set r" by auto
    from STL_only_from_decomposer[OF r m] have "f = R_decomposer" .
    with f r m show "R_decomposer \<in> set fs \<and> STLDecomposer \<in> set (get_decomposer ext X y pt)"
      by auto
  next
    assume "R_decomposer \<in> set fs \<and> STLDecomposer \<in> set (get_decomposer ext X y pt)"
    then show "STLDecomposer \<in> set cs"
      using run_functions_mem[OF run, of STLDecomposer] R_decomposer_kept[of excl]
      by (auto intro!: bexI[of _ R_decomposer])
  qed
  with fs show ?thesis by (auto simp: STL_in_get_decomposer DECOMPOSER_PERIOD_CAP_def)
qed

theorem decomposer_selected_iff_witness:
  "get_preprocessing_components sample_externals sample_X () TIME_SERIES_REGRESSION
     (Some ElasticNetRegressor) None None True
   = Inr [Imputer, TimeSeriesFeaturizer, STLDecomposer, DateTimeFeaturizer, OneHotEncoder,
          DropNaNRowsTransformer, StandardScaler]
   \<and> (\<exists>freq p. time_index_freq sample_externals sample_X () = Some freq
         \<and> is_freq_valid sample_externals freq
         \<and> determine_periodicity sample_externals sample_X () (rel_max_order freq) = Some p
         \<and> p \<le> 1000)"
  using decomposer_selected_iff[OF sample_run] sample_run by simp

subsection \<open>C5: when a sampler is selected\<close>

text \<open>
  Claim C5 says that a sampler is selected if and only if a sampler name is given and the
  problem is a classification problem. \<open>_get_sampler\<close> never reads the problem type: for a
  regression problem with the name \<open>"Oversampler"\<close> the selector returns the oversampler.
  (\<open>_make_pipeline_time_series\<close> calls the selector in just this way for the
  known-in-advance features; the rejection of a sampler for a non-classification problem
  is \<open>make_pipeline\<close>'s, before the selector runs.)
\<close>

theorem sampler_regression_counterexample:
  "get_preprocessing_components sample_externals sample_X () REGRESSION
     (Some ElasticNetRegressor) (Some ''Oversampler'') None True
   = Inr [DateTimeFeaturizer, Imputer, OneHotEncoder, Oversampler, StandardScaler]
   \<and> \<not> is_classification REGRESSION"
  by code_simp

text \<open>
  C5 as amended: whenever the selector returns a list, a sampler component
  (\<open>Undersampler\<close> or \<open>Oversampler\<close>) is in it exactly when a sampler name is given and the
  problem type is not the multiseries one.
\<close>

theorem sampler_selected_iff:
  assumes "get_preprocessing_components ext X y pt est s excl inc = Inr cs"
  shows "(Undersampler \<in> set cs \<or> Oversampler \<in> set cs) \<longleftrightarrow>
     s \<noteq> None \<and> \<not> is_multiseries pt"
proof (cases "is_multiseries pt")
  case True
  then have pt: "pt = MULTISERIES_TIME_SERIES_REGRESSION" by (simp add: is_multiseries_iff)
  from assms have "cs = (if inc then [STLDecomposer] else [])"
    unfolding pt selector_multiseries by simp
  then show ?thesis by (simp add: pt)
next
  case False
  define fs where
    "fs = (if is_time_series pt then time_series_functions inc else default_functions)"
  have run: "run_functions ext fs (functions_to_exclude excl) X y pt est s [] = Inr cs"
    unfolding fs_def by (rule selector_run[OF assms False])
  have mem: "R_sampler \<in> set fs"
    by (simp add: fs_def time_series_functions_def default_functions_def)
  from run_functions_ok[OF run mem R_sampler_kept]
  obtain r0 where r0: "get_sampler s = Inr r0" by auto
  have "(Undersampler \<in> set cs \<or> Oversampler \<in> set cs) \<longleftrightarrow>
      (Undersampler \<in> set r0 \<or> Oversampler \<in> set r0)"
  proof
    assume a: "Undersampler \<in> set cs \<or> Oversampler \<in> set cs"
    with run_functions_mem[OF run, of Undersampler] run_functions_mem[OF run, of Oversampler]
    obtain f r where r: "call_rule ext f X y pt est s = Inr r"
      and m: "Undersampler \<in> set r \<or> Oversampler \<in> set r" by auto
    from sampler_only_from_sampler[OF r m] have "f = R_sampler" .
    with r r0 m show "Undersampler \<in> set r0 \<or> Oversampler \<in> set r0" by auto
  next
    assume a: "Undersampler \<in> set r0 \<or> Oversampler \<in> set r0"
    have call: "call_rule ext R_sampler X y pt est s = Inr r0" using r0 by simp
    from a show "Undersampler \<in> set cs \<or> Oversampler \<in> set cs"
      using run_functions_mem[OF run, of Undersampler] run_functions_mem[OF run, of Oversampler]
        mem R_sampler_kept[of excl] call by blast
  qed
  with get_sampler_Inr[OF r0] False show ?thesis by simp
qed

lemma sample_run_sampler:
  "get_preprocessing_components sample_externals sample_X () TIME_SERIES_BINARY
     (Some ElasticNetRegressor) (Some ''Undersampler'') (Some [''DatetimeFeaturizer'']) True
   = Inr [LabelEncoder, Imputer, TimeSeriesFeaturizer, OneHotEncoder, DropNaNRowsTransformer,
          Undersampler, StandardScaler]"
  by code_simp

theorem sampler_selected_iff_witness:
  "get_preprocessing_components sample_externals sample_X () TIME_SERIES_BINARY
     (Some ElasticNetRegressor) (Some ''Undersampler'') (Some [''DatetimeFeaturizer'']) True
   = Inr [LabelEncoder, Imputer, TimeSeriesFeaturizer, OneHotEncoder, DropNaNRowsTransformer,
          Undersampler, StandardScaler]
   \<and> Undersampler \<in> set [LabelEncoder, Imputer, TimeSeriesFeaturizer, OneHotEncoder,
        DropNaNRowsTransformer, Undersampler, StandardScaler]"
  using sampler_selected_iff[OF sample_run_sampler] sample_run_sampler by simp

subsection \<open>C9: the selector is deterministic, with a fixed rule order\<close>

lemma imputer_any_order:
  assumes "arranges run X"
  shows "get_imputer run X
           = (if (\<exists>c\<in>set X. ltype c \<in> set types_imputer_handles)
                 \<or> ww_select [LType NaturalLanguage] X \<noteq> []
              then [Imputer] else [])"
proof -
  let ?held = "set_order run (remdups (map ltype X))"
  from assms have "set ?held = set (remdups (map ltype X))"
    unfolding arranges_def by (rule mset_eq_setD)
  hence held: "set ?held = ltype ` set X" by simp
  have "0 < length (filter (\<lambda>t. t \<in> set types_imputer_handles) ?held)
          \<longleftrightarrow> (\<exists>t\<in>set ?held. t \<in> set types_imputer_handles)"
    by (simp add: filter_empty_conv)
  also have "\<dots> \<longleftrightarrow> (\<exists>c\<in>set X. ltype c \<in> set types_imputer_handles)"
    by (simp only: held) blast
  finally show ?thesis
    by (simp only: get_imputer_def Let_def length_greater_0_conv)
qed

lemma call_rule_any_order:
  assumes "arranges (run\<lparr>set_order := order1\<rparr>) X"
    and "arranges (run\<lparr>set_order := order2\<rparr>) X"
  shows "call_rule (run\<lparr>set_order := order1\<rparr>) f X y pt est s
           = call_rule (run\<lparr>set_order := order2\<rparr>) f X y pt est s"
proof (cases f)
  case R_imputer
  thus ?thesis
    by (simp only: call_rule.simps imputer_any_order [OF assms(1)]
          imputer_any_order [OF assms(2)])
next
  case R_decomposer
  thus ?thesis by (simp add: get_decomposer_def Let_def split: option.split)
next
  case R_drop_nan_rows_transformer
  thus ?thesis by (simp add: get_drop_nan_rows_transformer_def)
qed simp_all

lemma run_functions_any_order:
  assumes "arranges (run\<lparr>set_order := order1\<rparr>) X"
    and "arranges (run\<lparr>set_order := order2\<rparr>) X"
  shows "run_functions (run\<lparr>set_order := order1\<rparr>) fs excl X y pt est s acc
           = run_functions (run\<lparr>set_order := order2\<rparr>) fs excl X y pt est s acc"
proof (induction fs arbitrary: acc)
  case Nil
  show ?case by simp
next
  case (Cons f fs)
  show ?case
    by (simp only: run_functions.simps call_rule_any_order [OF assms, of f y pt est s]
          Cons.IH)
qed

lemma excluded_iff: "excluded excl n \<longleftrightarrow> n \<in> exclusion_set excl"
  by (cases excl) (auto simp: excluded_def exclusion_set_def)

lemma functions_to_exclude_same_set:
  "exclusion_set excl1 = exclusion_set excl2
     \<Longrightarrow> functions_to_exclude excl1 = functions_to_exclude excl2"
  by (simp add: functions_to_exclude_def excluded_iff)

text \<open>
  Claim C9: two runs of \<open>_get_preprocessing_components\<close> on the same input (feature
  schema, target, problem type, estimator class, sampler name, exclusion set,
  \<open>include_decomposer\<close>) give the same result, and the components come in the fixed order
  of the rule functions. The two runs share the input and the collaborators; each holds
  its sets in an arrangement of its own, and each is handed the exclusion set in an
  arrangement of its own. Both runs raise the same exception or return the same list;
  mapping each selected component to the rule function that emits it gives a subsequence
  of the problem type's rule list, so no component is selected twice.
\<close>

theorem selector_deterministic:
  assumes "arranges (run\<lparr>set_order := order1\<rparr>) X"
    and "arranges (run\<lparr>set_order := order2\<rparr>) X"
    and "exclusion_set excl1 = exclusion_set excl2"
  shows "get_preprocessing_components (run\<lparr>set_order := order1\<rparr>) X y pt est s excl1 inc
           = get_preprocessing_components (run\<lparr>set_order := order2\<rparr>) X y pt est s excl2 inc
    \<and> (case get_preprocessing_components (run\<lparr>set_order := order1\<rparr>) X y pt est s excl1 inc
        of Inl e \<Rightarrow> True
         | Inr cs \<Rightarrow> subseq (map emitting_rule cs) (rule_order pt) \<and> distinct cs)"
proof -
  let ?r1 = "get_preprocessing_components (run\<lparr>set_order := order1\<rparr>) X y pt est s excl1 inc"
  have same: "?r1 = get_preprocessing_components (run\<lparr>set_order := order2\<rparr>) X y pt est s
                      excl2 inc"
    by (simp only: get_preprocessing_components_def Let_def
          functions_to_exclude_same_set [OF assms(3)]
          run_functions_any_order [OF assms(1,2)])
  have "case ?r1 of Inl e \<Rightarrow> True
        | Inr cs \<Rightarrow> subseq (map emitting_rule cs) (rule_order pt) \<and> distinct cs"
  proof (cases ?r1)
    case (Inl e)
    thus ?thesis by simp
  next
    case (Inr cs)
    hence sub: "subseq (map emitting_rule cs) (rule_order pt)"
      by (rule selector_order)
    hence "map emitting_rule cs \<in> set (subseqs (rule_order pt))" by simp
    from subseqs_distinctD [OF this distinct_rule_order] have "distinct cs"
      by (simp add: distinct_map)
    with sub Inr show ?thesis by simp
  qed
  with same show ?thesis by blast
qed

lemma sample_run_reversed:
  "get_preprocessing_components (sample_externals\<lparr>set_order := rev\<rparr>) sample_X ()
     TIME_SERIES_REGRESSION (Some ElasticNetRegressor) None
     (Some [''URLFeaturizer'', ''EmailFeaturizer'']) True
   = Inr [Imputer, TimeSeriesFeaturizer, STLDecomposer, DateTimeFeaturizer, OneHotEncoder,
          DropNaNRowsTransformer, StandardScaler]"
  by code_simp

theorem selector_deterministic_witness:
  "get_preprocessing_components (sample_externals\<lparr>set_order := rev\<rparr>) sample_X ()
     TIME_SERIES_REGRESSION (Some ElasticNetRegressor) None
     (Some [''URLFeaturizer'', ''EmailFeaturizer'']) True
   = get_preprocessing_components (sample_externals\<lparr>set_order := rotate1\<rparr>) sample_X ()
       TIME_SERIES_REGRESSION (Some ElasticNetRegressor) None
       (Some [''EmailFeaturizer'', ''URLFeaturizer'', ''EmailFeaturizer'']) True
   \<and> subseq (map emitting_rule [Imputer, TimeSeriesFeaturizer, STLDecomposer,
        DateTimeFeaturizer, OneHotEncoder, DropNaNRowsTransformer, StandardScaler])
       (rule_order TIME_SERIES_REGRESSION)
   \<and> distinct [Imputer, TimeSeriesFeaturizer, STLDecomposer, DateTimeFeaturizer,
        OneHotEncoder, DropNaNRowsTransformer, StandardScaler]"
proof -
  have a1: "arranges (sample_externals\<lparr>set_order := rev\<rparr>) sample_X"
    by (simp add: arranges_def)
  have a2: "arranges (sample_externals\<lparr>set_order := rotate1\<rparr>) sample_X"
    by (simp add: arranges_def sample_X_def)
  have e: "exclusion_set (Some [''URLFeaturizer'', ''EmailFeaturizer''])
             = exclusion_set (Some [''EmailFeaturizer'', ''URLFeaturizer'', ''EmailFeaturizer''])"
    by (auto simp: exclusion_set_def)
  from selector_deterministic [OF a1 a2 e, of "()" TIME_SERIES_REGRESSION
      "Some ElasticNetRegressor" None True]
  show ?thesis by (simp add: sample_run_reversed)
qed

subsection \<open>C10: the multiseries problem type\<close>

text \<open>
  Claim C10: for the multiseries time-series regression problem type the selector returns
  \<open>[STLDecomposer]\<close> when \<open>include_decomposer\<close> is true and the empty list when it is
  false, whatever the feature schema, the estimator, the sampler name and the exclusion
  list are; it never raises.
\<close>

theorem multiseries_components:
  "get_preprocessing_components ext X y MULTISERIES_TIME_SERIES_REGRESSION est s excl inc
     = Inr (if inc then [STLDecomposer] else [])"
  by (rule selector_multiseries)

theorem multiseries_components_witness:
  "get_preprocessing_components sample_externals sample_X ()
       MULTISERIES_TIME_SERIES_REGRESSION (Some ElasticNetRegressor) (Some ''Oversampler'')
       None True = Inr [STLDecomposer]
   \<and> get_preprocessing_components sample_externals sample_X ()
       MULTISERIES_TIME_SERIES_REGRESSION (Some ElasticNetRegressor) (Some ''Oversampler'')
       None False = Inr []"
  using multiseries_components[of sample_externals sample_X "()" "Some ElasticNetRegressor"
      "Some ''Oversampler''" None True]
    multiseries_components[of sample_externals sample_X "()" "Some ElasticNetRegressor"
      "Some ''Oversampler''" None False]
  by simp

section \<open>Properties of the action translator\<close>








subsection \<open>C3: DROP_COL and DROP_ROWS actions are coalesced\<close>




section \<open>Properties of confusion-matrix normalisation\<close>












subsection \<open>C6: normalising by the true labels\<close>




section \<open>Properties of the distribution check\<close>

lemma length_value_counts: "length (value_counts ys) = card (set ys)"
  by (simp add: value_counts_def length_remdups_card_conv)

lemma regression_otherwise:
  "\<not> is_classification pt \<Longrightarrow> \<not> is_time_series pt \<Longrightarrow> is_regression pt"
  by (cases pt) auto

subsection \<open>C7: which test decides, and the verdict\<close>

text \<open>
  Claim C7 says that the check returns 1 if the p-value is at least the threshold and 0
  otherwise. The verdict is \<open>0 if p_value < threshold else 1\<close>: a p-value that is
  not-a-number is not below the threshold, so the check returns 1, though the p-value is
  not at least the threshold either. The chi-square test gives such a p-value when the
  true and the predicted values are all of one class. Here the threshold is the default.
\<close>

theorem nan_p_value_counterexample:
  "check_distribution equal_sample_tests [1, 1, 1] [1, 1, 1] BINARY (Fin (1 / 10)) = Inr 1
   \<and> value_counts [1, 1, 1 :: int] = [3]
   \<and> chisquare equal_sample_tests [3] [3] = Inr NaN
   \<and> \<not> (np_less (Fin (1 / 10)) NaN \<or> Fin (1 / 10) = NaN)"
  by code_simp

text \<open>
  C7 as amended, with the order of the \<open>if\<close>/\<open>elif\<close> chain made explicit. The check
  decides by the chi-square test on the value counts for a classification problem
  (time-series classification included), by the Wilcoxon signed-rank test for the other
  time-series problems, and by the Kolmogorov--Smirnov test for the remaining problems,
  which are regression problems; the verdict on a p-value is 0 if the p-value is below
  the threshold and 1 otherwise: 1 if the p-value is at least the threshold, and 1 also if
  the p-value or the threshold is not-a-number. For a classification problem the check
  returns 0 whenever the numbers of distinct predicted and distinct true classes differ,
  and it returns 1 when the predicted and true value counts are identical, the chi-square
  test gives them the p-value 1 or not-a-number, and the threshold is in the documented
  range, strictly between 0 and 1.
\<close>

theorem check_distribution_dispatch:
  "(is_classification pt \<longrightarrow>
      check_distribution tests y_true y_pred pt threshold =
        (if card (set y_true) \<noteq> card (set y_pred) then Inr 0
         else verdict (chisquare tests (value_counts y_pred) (value_counts y_true)) threshold))
   \<and> (\<not> is_classification pt \<and> is_time_series pt \<longrightarrow>
      check_distribution tests y_true y_pred pt threshold =
        verdict (wilcoxon tests y_true y_pred) threshold)
   \<and> (\<not> is_classification pt \<and> \<not> is_time_series pt \<longrightarrow>
      is_regression pt \<and>
      check_distribution tests y_true y_pred pt threshold =
        verdict (kstest tests y_true y_pred) threshold)
   \<and> verdict (Inr p_value) threshold
       = Inr (if np_less threshold p_value \<or> threshold = p_value
                 \<or> p_value = NaN \<or> threshold = NaN then 1 else 0)
   \<and> (is_classification pt \<and> value_counts y_pred = value_counts y_true
        \<and> (chisquare tests (value_counts y_pred) (value_counts y_true) = Inr (Fin 1)
            \<or> chisquare tests (value_counts y_pred) (value_counts y_true) = Inr NaN)
        \<and> threshold = Fin t \<and> 0 < t \<and> t < 1 \<longrightarrow>
      check_distribution tests y_true y_pred pt threshold = Inr 1)"
proof -
  have a: "is_classification pt \<longrightarrow>
      check_distribution tests y_true y_pred pt threshold =
        (if card (set y_true) \<noteq> card (set y_pred) then Inr 0
         else verdict (chisquare tests (value_counts y_pred) (value_counts y_true)) threshold)"
    by (simp add: check_distribution_def Let_def length_value_counts)
  have b: "\<not> is_classification pt \<and> is_time_series pt \<longrightarrow>
      check_distribution tests y_true y_pred pt threshold =
        verdict (wilcoxon tests y_true y_pred) threshold"
    by (simp add: check_distribution_def)
  have c: "\<not> is_classification pt \<and> \<not> is_time_series pt \<longrightarrow>
      is_regression pt \<and>
      check_distribution tests y_true y_pred pt threshold =
        verdict (kstest tests y_true y_pred) threshold"
    by (simp add: check_distribution_def regression_otherwise)
  have "np_less p_value threshold \<longleftrightarrow>
          \<not> (np_less threshold p_value \<or> threshold = p_value
              \<or> p_value = NaN \<or> threshold = NaN)"
    by (cases p_value; cases threshold) auto
  hence d: "verdict (Inr p_value) threshold
       = Inr (if np_less threshold p_value \<or> threshold = p_value
                 \<or> p_value = NaN \<or> threshold = NaN then 1 else 0)"
    by (simp add: verdict_def)
  have e: "is_classification pt \<and> value_counts y_pred = value_counts y_true
        \<and> (chisquare tests (value_counts y_pred) (value_counts y_true) = Inr (Fin 1)
            \<or> chisquare tests (value_counts y_pred) (value_counts y_true) = Inr NaN)
        \<and> threshold = Fin t \<and> 0 < t \<and> t < 1 \<longrightarrow>
      check_distribution tests y_true y_pred pt threshold = Inr 1"
    by (auto simp: check_distribution_def Let_def verdict_def)
  from a b c d e show ?thesis by blast
qed

text \<open>
  The instances of the claim: equal samples \<open>[0, 0, 1, 1, 1]\<close> at the default threshold
  0.1 give 1; two true classes against one predicted class give 0; a time-series
  classification problem is decided by the chi-square test.
\<close>

theorem check_distribution_dispatch_witness:
  "check_distribution equal_sample_tests [0, 0, 1, 1, 1] [0, 0, 1, 1, 1] BINARY (Fin (1 / 10))
     = Inr 1
   \<and> check_distribution equal_sample_tests [0, 0, 1, 1, 1] [1, 1, 1, 1, 1] BINARY
        (Fin (1 / 10)) = Inr 0
   \<and> check_distribution equal_sample_tests [0, 0, 1, 1, 1] [1, 1, 1, 0, 0]
        TIME_SERIES_BINARY (Fin (1 / 10)) = Inr 1
   \<and> check_distribution equal_sample_tests [0, 0, 1, 1, 1] [1, 1, 1, 0, 0]
        TIME_SERIES_REGRESSION (Fin (1 / 10)) = Inr 0
   \<and> check_distribution equal_sample_tests [0, 0, 1, 1, 1] [0, 0, 1, 1, 1]
        REGRESSION (Fin (1 / 10)) = Inr 1"
proof -
  have vc: "value_counts [0, 0, 1, 1, 1 :: int] = [3, 2]"
    "value_counts [1, 1, 1, 0, 0 :: int] = [3, 2]"
    "value_counts [1, 1, 1, 1, 1 :: int] = [5]"
    by code_simp+
  have cards: "card (set [0, 0, 1, 1, 1 :: int]) = 2" "card (set [1, 1, 1, 1, 1 :: int]) = 1"
    "card (set [1, 1, 1, 0, 0 :: int]) = 2"
    by (simp_all add: card_insert_if)
  note inst = check_distribution_dispatch[where tests = equal_sample_tests
      and y_true = "[0, 0, 1, 1, 1]" and threshold = "Fin (1 / 10)" and t = "1 / 10"]
  from inst[where pt = BINARY and y_pred = "[0, 0, 1, 1, 1]"]
  have 1: "check_distribution equal_sample_tests [0, 0, 1, 1, 1] [0, 0, 1, 1, 1] BINARY
      (Fin (1 / 10)) = Inr 1"
    by (simp add: vc equal_sample_tests_def)
  from inst[where pt = BINARY and y_pred = "[1, 1, 1, 1, 1]"]
  have 2: "check_distribution equal_sample_tests [0, 0, 1, 1, 1] [1, 1, 1, 1, 1] BINARY
      (Fin (1 / 10)) = Inr 0"
    by (simp add: cards)
  from inst[where pt = TIME_SERIES_BINARY and y_pred = "[1, 1, 1, 0, 0]"]
  have 3: "check_distribution equal_sample_tests [0, 0, 1, 1, 1] [1, 1, 1, 0, 0]
        TIME_SERIES_BINARY (Fin (1 / 10)) = Inr 1"
    by (simp add: vc cards equal_sample_tests_def verdict_def)
  from inst[where pt = TIME_SERIES_REGRESSION and y_pred = "[1, 1, 1, 0, 0]"]
  have 4: "check_distribution equal_sample_tests [0, 0, 1, 1, 1] [1, 1, 1, 0, 0]
        TIME_SERIES_REGRESSION (Fin (1 / 10)) = Inr 0"
    by (simp add: equal_sample_tests_def verdict_def)
  from inst[where pt = REGRESSION and y_pred = "[0, 0, 1, 1, 1]"]
  have 5: "check_distribution equal_sample_tests [0, 0, 1, 1, 1] [0, 0, 1, 1, 1]
        REGRESSION (Fin (1 / 10)) = Inr 1"
    by (simp add: equal_sample_tests_def verdict_def)
  from 1 2 3 4 5 show ?thesis by blast
qed

section \<open>Properties of the multi-graph assembler\<close>

subsection \<open>Keys of a dictionary under assignment\<close>

lemma keys_dict_set:
  "map fst (dict_set k v d) = (if k \<in> set (map fst d) then map fst d else map fst d @ [k])"
  by (induction d) auto

lemma keys_dict_set_fresh: "k \<notin> set (map fst d) \<Longrightarrow> map fst (dict_set k v d) = map fst d @ [k]"
  by (simp add: keys_dict_set)

lemma keys_dict_set_same: "k \<in> set (map fst d) \<Longrightarrow> map fst (dict_set k v d) = map fst d"
  by (simp add: keys_dict_set)

lemma keys_dict_update_fresh:
  "distinct (map fst d @ map fst other) \<Longrightarrow>
   map fst (dict_update d other) = map fst d @ map fst other"
proof (induction other arbitrary: d)
  case Nil
  then show ?case by (simp add: dict_update_def)
next
  case (Cons kv other)
  obtain k v where kv: "kv = (k, v)" by (cases kv)
  from Cons.prems kv have fresh: "k \<notin> set (map fst d)" by auto
  have step: "dict_update d ((k, v) # other) = dict_update (dict_set k v d) other"
    by (simp add: dict_update_def)
  from Cons.prems kv fresh have "distinct (map fst (dict_set k v d) @ map fst other)"
    by (auto simp: keys_dict_set_fresh)
  from Cons.IH[OF this] show ?case by (simp add: step keys_dict_set_fresh[OF fresh] kv)
qed

subsection \<open>The loops add the renamed node names\<close>

lemma nodes_loop_keys:
  "nodes_loop ctx nodes (g, ps, fy, fc) = Inr (g', ps', fy', fc') \<Longrightarrow>
   distinct (map fst g @ map (rename ctx) (map fst nodes)) \<Longrightarrow>
   map fst g' = map fst g @ map (rename ctx) (map fst nodes)"
proof (induction nodes arbitrary: g ps fy fc)
  case Nil
  then show ?case by simp
next
  case (Cons node nodes)
  obtain name component_list where node: "node = (name, component_list)" by (cases node)
  from Cons.prems(1) node obtain ncl fy1 ps1 where
    rest: "nodes_loop ctx nodes (dict_set (rename ctx name) ncl g, ps1, fy1, Some (rename ctx name))
             = Inr (g', ps', fy', fc')"
    by (auto simp: Let_def split: sum.splits prod.splits)
  from Cons.prems(2) node have fresh: "rename ctx name \<notin> set (map fst g)" by auto
  have keys1: "map fst (dict_set (rename ctx name) ncl g) = map fst g @ [rename ctx name]"
    by (rule keys_dict_set_fresh[OF fresh])
  from Cons.prems(2) node
  have "distinct (map fst (dict_set (rename ctx name) ncl g) @ map (rename ctx) (map fst nodes))"
    by (simp add: keys1)
  from Cons.IH[OF rest this] show ?case by (simp add: keys1 node)
qed

lemma make_new_component_name_eq:
  "sub_pipeline_name_of subs name = Inr sub \<Longrightarrow>
   make_new_component_name name c (name_idx_of used name) sub
     = node_name (label_of subs name) (count_list used name) c"
  by (auto simp: make_new_component_name_def name_idx_of_def node_name_def label_of_def
      alias_of_def occurrence_suffix_def Let_def split: option.splits)

lemma pipeline_step_keys:
  assumes "pipeline_step reg is_cls last_prior subs p a = Inr a'"
    and "distinct (map fst (component_graph a)
          @ map (node_name (label_of subs (pipeline_name p))
                   (count_list (used_names a) (pipeline_name p)))
              (map fst (component_dict p)))"
  shows "map fst (component_graph a') = map fst (component_graph a)
          @ map (node_name (label_of subs (pipeline_name p))
                   (count_list (used_names a) (pipeline_name p)))
              (map fst (component_dict p))
       \<and> used_names a' = used_names a @ [pipeline_name p]"
proof -
  from assms(1) obtain sub where sub: "sub_pipeline_name_of subs (pipeline_name p) = Inr sub"
    by (auto simp: pipeline_step_def Let_def split: sum.splits)
  let ?mk = "\<lambda>c. make_new_component_name (pipeline_name p) c
                 (name_idx_of (used_names a) (pipeline_name p)) sub"
  have mk: "?mk = node_name (label_of subs (pipeline_name p))
                    (count_list (used_names a) (pipeline_name p))"
    by (rule ext) (rule make_new_component_name_eq[OF sub])
  show ?thesis
  proof (cases "component_dict p = []")
    case True
    with assms(1) show ?thesis
      by (auto simp: pipeline_step_def Let_def split: sum.splits option.splits)
  next
    case False
    with assms(1) sub obtain first_x g ps fy fc where
      run: "nodes_loop \<lparr>rename = ?mk, classification = is_cls, last_prior_component = last_prior,
               first_x_component = first_x, the_pipeline = p, the_registry = reg\<rparr>
             (component_dict p) (component_graph a, parameters_dict a, ''y'', None)
           = Inr (g, ps, fy, fc)"
      and a': "a' = a\<lparr>component_graph := g, parameters_dict := ps,
                      used_names := used_names a @ [pipeline_name p],
                      final_components := final_components a @ [fc],
                      final_ys := Some (fy, if \<not> the (reg (last (compute_order p))) then None
                         else Some (?mk (last (compute_order p)) @ ''.y''))\<rparr>"
      by (auto simp: pipeline_step_def Let_def last_of_def split: sum.splits option.splits if_splits)
    from nodes_loop_keys[OF run] assms(2) mk
    have "map fst g = map fst (component_graph a)
          @ map (node_name (label_of subs (pipeline_name p))
                   (count_list (used_names a) (pipeline_name p)))
              (map fst (component_dict p))"
      by simp
    with a' show ?thesis by simp
  qed
qed

lemma pipelines_loop_keys:
  "pipelines_loop reg is_cls last_prior subs ps a = Inr a' \<Longrightarrow>
   distinct (map fst (component_graph a) @ renamed_keys subs (used_names a) ps) \<Longrightarrow>
   map fst (component_graph a') = map fst (component_graph a) @ renamed_keys subs (used_names a) ps"
proof (induction ps arbitrary: a)
  case Nil
  then show ?case by simp
next
  case (Cons p ps)
  from Cons.prems(1) obtain a1 where
    step: "pipeline_step reg is_cls last_prior subs p a = Inr a1"
    and rest: "pipelines_loop reg is_cls last_prior subs ps a1 = Inr a'"
    by (auto split: sum.splits)
  from Cons.prems(2) have d1: "distinct (map fst (component_graph a)
          @ map (node_name (label_of subs (pipeline_name p))
                   (count_list (used_names a) (pipeline_name p)))
              (map fst (component_dict p)))"
    by auto
  from pipeline_step_keys[OF step d1]
  have k1: "map fst (component_graph a1) = map fst (component_graph a)
          @ map (node_name (label_of subs (pipeline_name p))
                   (count_list (used_names a) (pipeline_name p)))
              (map fst (component_dict p))"
    and u1: "used_names a1 = used_names a @ [pipeline_name p]" by simp_all
  from Cons.prems(2) have "distinct (map fst (component_graph a1) @ renamed_keys subs (used_names a1) ps)"
    by (simp add: k1 u1)
  from Cons.IH[OF rest this] show ?case by (simp add: k1 u1)
qed


subsection \<open>Decimal numerals and the renaming scheme as strings\<close>

lemma of_char_digit: "d < 10 \<Longrightarrow> of_char (digit_char d) = 48 + d"
  by (simp add: digit_char_def of_char_of)

lemma digit_char_inj:
  assumes "a < 10" "b < 10" "digit_char a = digit_char b"
  shows "a = b"
proof -
  from assms(3) have "(of_char (digit_char a) :: nat) = of_char (digit_char b)"
    by (rule arg_cong)
  then have "48 + a = 48 + b"
    by (simp only: of_char_digit[OF assms(1)] of_char_digit[OF assms(2)])
  then show ?thesis by simp
qed

lemma is_digit_digit_char: "d < 10 \<Longrightarrow> is_digit (digit_char d)"
  by (simp add: is_digit_def of_char_digit)

lemma not_digit_simps [simp]:
  "\<not> is_digit CHR '' ''" "\<not> is_digit CHR ''-''" "\<not> is_digit CHR ''e''"
  by (simp_all add: is_digit_def)

lemma str_nat_nonempty: "str_nat n \<noteq> []"
  by (subst str_nat.simps) simp

lemma str_nat_small: "n < 10 \<Longrightarrow> str_nat n = [digit_char n]"
  by (subst str_nat.simps) simp

lemma str_nat_large: "\<not> n < 10 \<Longrightarrow> str_nat n = str_nat (n div 10) @ [digit_char (n mod 10)]"
  by (subst str_nat.simps) simp

lemma str_nat_digits: "c \<in> set (str_nat n) \<Longrightarrow> is_digit c"
proof (induction n rule: str_nat.induct)
  case (1 n)
  show ?case
  proof (cases "n < 10")
    case True
    from 1(2) have "c \<in> set [digit_char n]" by (simp only: str_nat_small[OF True])
    with True show ?thesis by (simp add: is_digit_digit_char)
  next
    case False
    from 1(2) have "c \<in> set (str_nat (n div 10) @ [digit_char (n mod 10)])"
      by (simp only: str_nat_large[OF False])
    then have "c \<in> set (str_nat (n div 10)) \<or> c = digit_char (n mod 10)"
      by auto
    with 1(1)[OF False] show ?thesis by (auto simp: is_digit_digit_char)
  qed
qed

lemma length_str_nat_large:
  assumes "\<not> n < 10"
  shows "2 \<le> length (str_nat n)"
proof -
  have "0 < length (str_nat (n div 10))"
    using str_nat_nonempty[of "n div 10"] by simp
  moreover have "length (str_nat n) = length (str_nat (n div 10)) + 1"
    by (simp only: str_nat_large[OF assms] length_append list.size)
  ultimately show ?thesis by linarith
qed

lemma str_nat_inj: "str_nat n = str_nat m \<Longrightarrow> n = m"
proof (induction n arbitrary: m rule: str_nat.induct)
  case (1 n)
  show ?case
  proof (cases "n < 10")
    case True
    have "m < 10"
    proof (rule ccontr)
      assume "\<not> m < 10"
      then have "2 \<le> length (str_nat m)" by (rule length_str_nat_large)
      moreover have "length (str_nat m) = 1"
        using 1(2)[symmetric] by (simp add: str_nat_small[OF True])
      ultimately show False by simp
    qed
    with 1(2) True have "digit_char n = digit_char m" by (simp add: str_nat_small)
    with True \<open>m < 10\<close> show ?thesis by (rule digit_char_inj)
  next
    case False
    have m: "\<not> m < 10"
    proof
      assume "m < 10"
      then have "length (str_nat m) = 1" by (simp add: str_nat_small)
      moreover from False have "2 \<le> length (str_nat n)" by (rule length_str_nat_large)
      ultimately show False using 1(2) by simp
    qed
    from 1(2) have "str_nat (n div 10) @ [digit_char (n mod 10)]
        = str_nat (m div 10) @ [digit_char (m mod 10)]"
      by (simp only: str_nat_large[OF False] str_nat_large[OF m])
    then have a: "str_nat (n div 10) = str_nat (m div 10)"
      and b: "digit_char (n mod 10) = digit_char (m mod 10)" by simp_all
    from 1(1)[OF False a] have "n div 10 = m div 10" .
    moreover have "n mod 10 = m mod 10" by (rule digit_char_inj[OF _ _ b]) simp_all
    ultimately show ?thesis by (metis div_mult_mod_eq)
  qed
qed

lemma split_at_char:
  "c \<notin> set xs \<Longrightarrow> c \<notin> set ys \<Longrightarrow> xs @ c # xs' = ys @ c # ys' \<Longrightarrow> xs = ys \<and> xs' = ys'"
proof (induction xs arbitrary: ys)
  case Nil
  then show ?case by (cases ys) auto
next
  case (Cons a xs)
  then show ?case by (cases ys) auto
qed

lemma split_at_last_char:
  assumes "c \<notin> set xs'" "c \<notin> set ys'" "xs @ c # xs' = ys @ c # ys'"
  shows "xs = ys \<and> xs' = ys'"
proof -
  from assms(3) have "rev (xs @ c # xs') = rev (ys @ c # ys')" by simp
  then have "rev xs' @ c # rev xs = rev ys' @ c # rev ys" by simp
  with assms(1,2) have "rev xs' = rev ys' \<and> rev xs = rev ys"
    by (intro split_at_char[of c]) simp_all
  then show ?thesis by simp
qed

lemma occurrence_suffix_cases:
  "occurrence_suffix k = [] \<and> k = 0 \<or> occurrence_suffix k = CHR '' '' # str_nat (k + 1) \<and> k \<noteq> 0"
  by (simp add: occurrence_suffix_def)

lemma ends_with_letter:
  "l @ '' Pipeline'' \<noteq> x @ str_nat n"
proof
  assume eq: "l @ '' Pipeline'' = x @ str_nat n"
  have "last (x @ str_nat n) = last (str_nat n)"
    by (rule last_appendR[OF str_nat_nonempty])
  moreover have "last (str_nat n) \<in> set (str_nat n)"
    by (rule last_in_set[OF str_nat_nonempty])
  ultimately have "is_digit (last (x @ str_nat n))" by (simp only: str_nat_digits)
  moreover have "last (l @ '' Pipeline'') = CHR ''e''" by simp
  ultimately show False using eq by (simp only: not_digit_simps)
qed

lemma label_suffix_inj:
  assumes "l @ '' Pipeline'' @ occurrence_suffix k = l' @ '' Pipeline'' @ occurrence_suffix k'"
  shows "l = l' \<and> k = k'"
proof -
  consider (zz) "k = 0" "k' = 0" | (zn) "k = 0" "k' \<noteq> 0" | (nz) "k \<noteq> 0" "k' = 0"
    | (nn) "k \<noteq> 0" "k' \<noteq> 0" by blast
  then show ?thesis
  proof cases
    case zz
    with assms show ?thesis by (simp add: occurrence_suffix_def)
  next
    case zn
    with assms have "l @ '' Pipeline'' = (l' @ '' Pipeline '') @ str_nat (k' + 1)"
      by (simp add: occurrence_suffix_def)
    with ends_with_letter show ?thesis by blast
  next
    case nz
    with assms have "l' @ '' Pipeline'' = (l @ '' Pipeline '') @ str_nat (k + 1)"
      by (simp add: occurrence_suffix_def)
    with ends_with_letter show ?thesis by blast
  next
    case nn
    with assms have eq: "(l @ '' Pipeline'') @ CHR '' '' # str_nat (k + 1)
        = (l' @ '' Pipeline'') @ CHR '' '' # str_nat (k' + 1)"
      by (simp add: occurrence_suffix_def)
    have "CHR '' '' \<notin> set (str_nat (k + 1))" "CHR '' '' \<notin> set (str_nat (k' + 1))"
      using str_nat_digits not_digit_simps(1) by blast+
    from split_at_last_char[OF this eq] have "l @ '' Pipeline'' = l' @ '' Pipeline''"
      and "str_nat (k + 1) = str_nat (k' + 1)" by simp_all
    then show ?thesis by (auto dest: str_nat_inj)
  qed
qed

lemma dash_free_prefix:
  assumes "dash_free l"
  shows "CHR ''-'' \<notin> set (l @ '' Pipeline'' @ occurrence_suffix k @ '' '')"
proof -
  have "CHR ''-'' \<notin> set (str_nat (k + 1))"
    using str_nat_digits[of "CHR ''-''" "k + 1"] by auto
  with assms show ?thesis by (simp add: dash_free_def occurrence_suffix_def)
qed

lemma node_name_inj:
  assumes "dash_free l" "dash_free l'" "node_name l k c = node_name l' k' c'"
  shows "l = l' \<and> k = k' \<and> c = c'"
proof -
  let ?p = "l @ '' Pipeline'' @ occurrence_suffix k @ '' ''"
  let ?p' = "l' @ '' Pipeline'' @ occurrence_suffix k' @ '' ''"
  from assms(3) have "?p @ CHR ''-'' # (CHR '' '' # c) = ?p' @ CHR ''-'' # (CHR '' '' # c')"
    by (simp add: node_name_def)
  from split_at_char[OF dash_free_prefix[OF assms(1)] dash_free_prefix[OF assms(2)] this]
  have p: "?p = ?p'" and c: "c = c'" by simp_all
  from p have "l @ '' Pipeline'' @ occurrence_suffix k = l' @ '' Pipeline'' @ occurrence_suffix k'"
    by simp
  from label_suffix_inj[OF this] c show ?thesis by simp
qed

lemma node_name_has_dash: "\<not> dash_free (node_name l k c)"
  by (simp add: node_name_def dash_free_def)


subsection \<open>The renamed node names are pairwise distinct\<close>

lemma renamed_keys_mem:
  "k \<in> set (renamed_keys subs used ps) \<Longrightarrow>
   \<exists>q extra c. q \<in> set ps \<and> c \<in> set (map fst (component_dict q))
     \<and> k = node_name (label_of subs (pipeline_name q))
             (count_list (used @ extra) (pipeline_name q)) c"
proof (induction ps arbitrary: used)
  case Nil
  then show ?case by simp
next
  case (Cons p ps)
  from Cons.prems consider
    (head) "k \<in> set (map (node_name (label_of subs (pipeline_name p))
                (count_list used (pipeline_name p))) (map fst (component_dict p)))"
    | (tail) "k \<in> set (renamed_keys subs (used @ [pipeline_name p]) ps)"
    by auto
  then show ?case
  proof cases
    case head
    then obtain c where "c \<in> set (map fst (component_dict p))"
      and "k = node_name (label_of subs (pipeline_name p)) (count_list used (pipeline_name p)) c"
      by auto
    then have "p \<in> set (p # ps) \<and> c \<in> set (map fst (component_dict p))
      \<and> k = node_name (label_of subs (pipeline_name p))
              (count_list (used @ []) (pipeline_name p)) c"
      by simp
    then show ?thesis by blast
  next
    case tail
    from Cons.IH[OF tail] obtain q extra c where "q \<in> set ps"
      "c \<in> set (map fst (component_dict q))"
      "k = node_name (label_of subs (pipeline_name q))
             (count_list ((used @ [pipeline_name p]) @ extra) (pipeline_name q)) c"
      by blast
    then have "q \<in> set (p # ps) \<and> c \<in> set (map fst (component_dict q))
      \<and> k = node_name (label_of subs (pipeline_name q))
              (count_list (used @ ([pipeline_name p] @ extra)) (pipeline_name q)) c"
      by simp
    then show ?thesis by blast
  qed
qed

lemma renamed_keys_have_dash: "k \<in> set (renamed_keys subs used ps) \<Longrightarrow> \<not> dash_free k"
  using renamed_keys_mem[of k subs used ps] node_name_has_dash by blast

lemma length_renamed_keys:
  "length (renamed_keys subs used ps) = sum_list (map (\<lambda>p. length (component_dict p)) ps)"
  by (induction ps arbitrary: used) simp_all

lemma distinct_renamed_keys:
  assumes "\<forall>p \<in> set ps. distinct (map fst (component_dict p))"
    and "\<forall>p \<in> set ps. dash_free (label_of subs (pipeline_name p))"
    and "\<forall>p \<in> set ps. \<forall>q \<in> set ps. pipeline_name p \<noteq> pipeline_name q \<longrightarrow>
           label_of subs (pipeline_name p) \<noteq> label_of subs (pipeline_name q)"
  shows "distinct (renamed_keys subs used ps)"
  using assms
proof (induction ps arbitrary: used)
  case Nil
  then show ?case by simp
next
  case (Cons p ps)
  let ?l = "label_of subs (pipeline_name p)"
  let ?k = "count_list used (pipeline_name p)"
  from Cons.prems(2) have lp: "dash_free ?l" by simp
  have inj: "inj_on (node_name ?l ?k) (set (map fst (component_dict p)))"
    using node_name_inj[OF lp lp] by (auto intro!: inj_onI)
  from Cons.prems(1) have "distinct (map fst (component_dict p))" by simp
  with inj have d_head: "distinct (map (node_name ?l ?k) (map fst (component_dict p)))"
    by (simp only: distinct_map simp_thms)
  have d_tail: "distinct (renamed_keys subs (used @ [pipeline_name p]) ps)"
    using Cons.prems by (intro Cons.IH) simp_all
  have disjoint: "set (map (node_name ?l ?k) (map fst (component_dict p)))
      \<inter> set (renamed_keys subs (used @ [pipeline_name p]) ps) = {}"
  proof (rule ccontr)
    assume "\<not> ?thesis"
    then obtain k where k1: "k \<in> set (map (node_name ?l ?k) (map fst (component_dict p)))"
      and k2: "k \<in> set (renamed_keys subs (used @ [pipeline_name p]) ps)" by blast
    from k1 obtain c where kc: "k = node_name ?l ?k c" by auto
    from renamed_keys_mem[OF k2] obtain q extra c' where q: "q \<in> set ps"
      and kq: "k = node_name (label_of subs (pipeline_name q))
                 (count_list ((used @ [pipeline_name p]) @ extra) (pipeline_name q)) c'"
      by blast
    from q Cons.prems(2) have lq: "dash_free (label_of subs (pipeline_name q))" by simp
    from kc kq have "node_name ?l ?k c = node_name (label_of subs (pipeline_name q))
                 (count_list ((used @ [pipeline_name p]) @ extra) (pipeline_name q)) c'"
      by simp
    from node_name_inj[OF lp lq this]
    have l: "?l = label_of subs (pipeline_name q)"
      and cnt: "?k = count_list ((used @ [pipeline_name p]) @ extra) (pipeline_name q)"
      by simp_all
    show False
    proof (cases "pipeline_name p = pipeline_name q")
      case True
      with cnt show False by simp
    next
      case False
      with Cons.prems(3) q l show False by auto
    qed
  qed
  from d_head d_tail disjoint show ?case by simp
qed

subsection \<open>The keys of the assembled graph\<close>

lemma initial_graph_keys:
  assumes "distinct (map fst pre
             @ (if is_classification pt then [''Label Encoder''] else []))"
  shows "map fst (initial_graph pt pre)
         = map fst pre @ (if is_classification pt then [''Label Encoder''] else [])"
proof (cases "is_classification pt")
  case True
  with assms have "distinct (map fst pre
      @ map fst [(''Label Encoder'', [''Label Encoder'', ''X'', ''y''])])" by simp
  from keys_dict_update_fresh[OF this] True show ?thesis by (simp add: initial_graph_def)
next
  case False
  then show ?thesis by (simp add: initial_graph_def)
qed

lemma add_post_components_keys:
  assumes "add_post_components g finals fy post = Inr (g1, l)"
    and "distinct (map fst g @ map fst post)"
  shows "map fst g1 = map fst g @ map fst post"
proof (cases "post = []")
  case True
  with assms(1) show ?thesis by (simp add: add_post_components_def)
next
  case False
  with assms(1) obtain xs where
    g1: "g1 = dict_update g (dict_set (fst (hd post)) ([fst (hd post)] @ xs @ [fy]) post)"
    by (auto simp: add_post_components_def Let_def split: sum.splits)
  from False have "fst (hd post) \<in> set (map fst post)" by (cases post) auto
  then have same: "map fst (dict_set (fst (hd post)) ([fst (hd post)] @ xs @ [fy]) post)
      = map fst post"
    by (rule keys_dict_set_same)
  from assms(2) have "distinct (map fst g
      @ map fst (dict_set (fst (hd post)) ([fst (hd post)] @ xs @ [fy]) post))"
    by (simp only: same)
  from keys_dict_update_fresh[OF this] show ?thesis by (simp only: g1 same)
qed

lemma add_estimator_keys:
  assumes "add_estimator g est finals fy l = Inr g2" and "est \<notin> set (map fst g)"
  shows "map fst g2 = map fst g @ [est]"
  using assms
  by (auto simp: add_estimator_def keys_dict_set_fresh split: option.splits if_splits sum.splits)

lemma finish_assembly_keys:
  assumes "finish_assembly a est pt post = Inr (g, pd)"
    and "distinct (map fst (component_graph a) @ map fst post @ [est])"
  shows "map fst g = map fst (component_graph a) @ map fst post @ [est]"
proof -
  from assms(1) obtain fy g1 l where
    post: "add_post_components (component_graph a) (final_components a) fy post = Inr (g1, l)"
    and est: "add_estimator g1 est (final_components a) fy l = Inr g"
    by (auto simp: finish_assembly_def Let_def split: option.splits sum.splits prod.splits if_splits)
  from assms(2) have "distinct (map fst (component_graph a) @ map fst post)" by simp
  from add_post_components_keys[OF post this]
  have k1: "map fst g1 = map fst (component_graph a) @ map fst post" .
  with assms(2) have "est \<notin> set (map fst g1)" by auto
  from add_estimator_keys[OF est this] k1 show ?thesis by simp
qed

lemma distinct_insert_middle:
  assumes "distinct (xs @ zs)" and "distinct ys" and "set (xs @ zs) \<inter> set ys = {}"
  shows "distinct (xs @ ys @ zs)"
  using assms by auto

lemma distinct_expected_keys:
  assumes "\<forall>p \<in> set ps. distinct (map fst (component_dict p))"
    and "\<forall>p \<in> set ps. dash_free (label_of subs (pipeline_name p))"
    and "\<forall>p \<in> set ps. \<forall>q \<in> set ps. pipeline_name p \<noteq> pipeline_name q \<longrightarrow>
           label_of subs (pipeline_name p) \<noteq> label_of subs (pipeline_name q)"
    and "distinct (shared_keys pt pre post est)"
    and "\<forall>k \<in> set (shared_keys pt pre post est). dash_free k"
  shows "distinct (expected_keys pt pre post est subs ps)"
proof -
  let ?xs = "map fst (or_empty pre)
     @ (if is_classification pt then [''Label Encoder''] else [])"
  let ?zs = "map fst (or_empty post) @ [est]"
  have sh: "shared_keys pt pre post est = ?xs @ ?zs"
    by (simp only: shared_keys_def append_assoc)
  have ex: "expected_keys pt pre post est subs ps = ?xs @ renamed_keys subs [] ps @ ?zs"
    by (simp only: expected_keys_def append_assoc)
  have r: "distinct (renamed_keys subs [] ps)"
    by (rule distinct_renamed_keys[OF assms(1,2,3)])
  have "set (shared_keys pt pre post est) \<inter> set (renamed_keys subs [] ps) = {}"
    using assms(5) renamed_keys_have_dash by blast
  then have disj: "set (?xs @ ?zs) \<inter> set (renamed_keys subs [] ps) = {}"
    by (simp only: sh)
  from assms(4) have "distinct (?xs @ ?zs)" by (simp only: sh)
  from distinct_insert_middle[OF this r disj] show ?thesis by (simp only: ex)
qed

lemma assembler_keys:
  assumes run: "make_pipeline_from_multiple_graphs reg ps est pt params subs pre post = Inr (g, pd)"
    and d: "distinct (expected_keys pt pre post est subs ps)"
  shows "map fst g = expected_keys pt pre post est subs ps"
proof -
  let ?pre = "map fst (or_empty pre)
     @ (if is_classification pt then [''Label Encoder''] else [])"
  let ?a0 = "\<lparr>component_graph = initial_graph pt (or_empty pre),
      parameters_dict = or_empty params, used_names = [],
      final_components = [], final_ys = None\<rparr>"
  from run obtain a where
    loop: "pipelines_loop reg (is_classification pt)
             (if or_empty pre \<noteq> [] then Some (fst (last (or_empty pre))) else None)
             subs ps ?a0 = Inr a"
    and fin: "finish_assembly a est pt (or_empty post) = Inr (g, pd)"
    by (auto simp: make_pipeline_from_multiple_graphs_def Let_def split: sum.splits)
  have ex: "expected_keys pt pre post est subs ps
      = ?pre @ renamed_keys subs [] ps @ map fst (or_empty post) @ [est]"
    by (simp only: expected_keys_def append_assoc)
  from d have d_all: "distinct (?pre @ renamed_keys subs [] ps @ map fst (or_empty post) @ [est])"
    by (simp only: ex)
  then have "distinct ?pre" by (simp only: distinct_append)
  then have k0: "map fst (initial_graph pt (or_empty pre)) = ?pre"
    by (rule initial_graph_keys)
  from d_all have "distinct (?pre @ renamed_keys subs [] ps)"
    by (simp only: distinct_append append_assoc[symmetric])
  then have "distinct (map fst (component_graph ?a0) @ renamed_keys subs (used_names ?a0) ps)"
    by (simp add: k0)
  from pipelines_loop_keys[OF loop this]
  have k1: "map fst (component_graph a) = ?pre @ renamed_keys subs [] ps"
    by (simp add: k0)
  from d_all have "distinct (map fst (component_graph a) @ map fst (or_empty post) @ [est])"
    by (simp only: k1 append_assoc)
  from finish_assembly_keys[OF fin this] show ?thesis by (simp only: k1 ex append_assoc)
qed

lemma length_expected_keys:
  "length (expected_keys pt pre post est subs ps)
     = length (shared_keys pt pre post est)
       + sum_list (map (\<lambda>p. length (component_dict p)) ps)"
  by (simp add: expected_keys_def shared_keys_def length_renamed_keys)

subsection \<open>C1: no node name is lost in a merge\<close>

text \<open>
  Claim C1 says that, for every list of input sub-pipelines, the merged graph has as many
  keys as there are input nodes and shared nodes. The numeric suffix is computed from the
  pipeline names, but the renaming uses the entry of \<open>sub_pipeline_names\<close> when there is
  one: two pipelines with different names and the same entry are renamed alike, and the
  nodes of the second overwrite those of the first. Here two pipelines of two nodes each,
  named \<open>A\<close> and \<open>B\<close> and both mapped to \<open>Same\<close>, give a graph of three keys where four input
  nodes and the estimator make five.
\<close>

theorem same_sub_pipeline_name_counterexample:
  "make_pipeline_from_multiple_graphs sample_registry
       [linear_pipeline ''A'', linear_pipeline ''B''] ''Random Forest Classifier'' REGRESSION
       None (Some [(''A'', ''Same''), (''B'', ''Same'')]) None None
     = Inr ([(''Same Pipeline - Imputer'', [''Imputer'', ''X'', ''y'']),
             (''Same Pipeline - One Hot Encoder'',
              [''One Hot Encoder'', ''Same Pipeline - Imputer.x'', ''y'']),
             (''Random Forest Classifier'',
              [''Random Forest Classifier'', ''Same Pipeline - One Hot Encoder.x'',
               ''Same Pipeline - One Hot Encoder.x'', ''y''])],
            [(''Same Pipeline - Imputer'', [(''numeric_impute_strategy'', PStr ''mean'')]),
             (''Same Pipeline - One Hot Encoder'', [])])
   \<and> length (component_dict (linear_pipeline ''A''))
       + length (component_dict (linear_pipeline ''B'')) + 1 = 5"
  by code_simp

text \<open>
  C1 as amended. Let the label of a sub-pipeline be its non-empty entry in
  \<open>sub_pipeline_names\<close> if it has one and its name otherwise. Suppose that no label holds
  the character \<open>-\<close>, that pipelines of different names have different labels, that the
  names of the shared nodes (pre-components, the label encoder of a classification
  problem, post-components, the final estimator) are pairwise distinct and hold no \<open>-\<close>,
  and that each input graph has distinct node names. Then, whenever the assembler returns
  a graph, its keys are, in order: the pre-components, the shared label encoder, for every
  sub-pipeline in turn its nodes \<open>c\<close> renamed to \<open>"{label} Pipeline{suffix} - {c}"\<close> where the
  suffix is empty for the first occurrence of the pipeline's name and \<open>" n"\<close> for the
  \<open>n\<close>-th, the post-components, the final estimator. These keys are pairwise distinct, and
  they are as many as the input nodes plus the shared nodes.
\<close>

theorem merged_graph_keys:
  assumes "make_pipeline_from_multiple_graphs reg ps est pt params subs pre post = Inr (g, pd)"
    and "\<forall>p \<in> set ps. distinct (map fst (component_dict p))"
    and "\<forall>p \<in> set ps. dash_free (label_of subs (pipeline_name p))"
    and "\<forall>p \<in> set ps. \<forall>q \<in> set ps. pipeline_name p \<noteq> pipeline_name q \<longrightarrow>
           label_of subs (pipeline_name p) \<noteq> label_of subs (pipeline_name q)"
    and "distinct (shared_keys pt pre post est)"
    and "\<forall>k \<in> set (shared_keys pt pre post est). dash_free k"
  shows "map fst g = expected_keys pt pre post est subs ps
     \<and> distinct (map fst g)
     \<and> length g = length (shared_keys pt pre post est)
                    + sum_list (map (\<lambda>p. length (component_dict p)) ps)"
proof -
  have d: "distinct (expected_keys pt pre post est subs ps)"
    by (rule distinct_expected_keys[OF assms(2-6)])
  from assembler_keys[OF assms(1) d]
  have k: "map fst g = expected_keys pt pre post est subs ps" .
  have "length g = length (map fst g)" by simp
  also have "\<dots> = length (shared_keys pt pre post est)
                    + sum_list (map (\<lambda>p. length (component_dict p)) ps)"
    by (simp only: k length_expected_keys)
  finally show ?thesis using k d by simp
qed

text \<open>
  The instance of the claim: three structurally identical pipelines with the same name,
  behind a pre-component, for a classification problem.
\<close>

lemma sample_merge:
  "make_pipeline_from_multiple_graphs sample_registry
       [linear_pipeline ''A'', linear_pipeline ''A'', linear_pipeline ''A'']
       ''Random Forest Classifier'' BINARY None None
       (Some [(''DFS Transformer'', [''DFS Transformer'', ''X'', ''y''])]) None
     = Inr ([(''DFS Transformer'', [''DFS Transformer'', ''X'', ''y'']),
             (''Label Encoder'', [''Label Encoder'', ''X'', ''y'']),
             (''A Pipeline - Imputer'', [''Imputer'', ''DFS Transformer.x'', ''Label Encoder.y'']),
             (''A Pipeline - One Hot Encoder'',
              [''One Hot Encoder'', ''A Pipeline - Imputer.x'', ''Label Encoder.y'']),
             (''A Pipeline 2 - Imputer'',
              [''Imputer'', ''DFS Transformer.x'', ''Label Encoder.y'']),
             (''A Pipeline 2 - One Hot Encoder'',
              [''One Hot Encoder'', ''A Pipeline 2 - Imputer.x'', ''Label Encoder.y'']),
             (''A Pipeline 3 - Imputer'',
              [''Imputer'', ''DFS Transformer.x'', ''Label Encoder.y'']),
             (''A Pipeline 3 - One Hot Encoder'',
              [''One Hot Encoder'', ''A Pipeline 3 - Imputer.x'', ''Label Encoder.y'']),
             (''Random Forest Classifier'',
              [''Random Forest Classifier'', ''A Pipeline - One Hot Encoder.x'',
               ''A Pipeline 2 - One Hot Encoder.x'', ''A Pipeline 3 - One Hot Encoder.x'',
               ''y''])],
            [(''A Pipeline - Imputer'', [(''numeric_impute_strategy'', PStr ''mean'')]),
             (''A Pipeline - One Hot Encoder'', []),
             (''A Pipeline 2 - Imputer'', [(''numeric_impute_strategy'', PStr ''mean'')]),
             (''A Pipeline 2 - One Hot Encoder'', []),
             (''A Pipeline 3 - Imputer'', [(''numeric_impute_strategy'', PStr ''mean'')]),
             (''A Pipeline 3 - One Hot Encoder'', [])])"
  by code_simp

theorem merged_graph_keys_witness:
  "expected_keys BINARY (Some [(''DFS Transformer'', [''DFS Transformer'', ''X'', ''y''])])
       None ''Random Forest Classifier'' None
       [linear_pipeline ''A'', linear_pipeline ''A'', linear_pipeline ''A'']
     = [''DFS Transformer'', ''Label Encoder'', ''A Pipeline - Imputer'',
        ''A Pipeline - One Hot Encoder'', ''A Pipeline 2 - Imputer'',
        ''A Pipeline 2 - One Hot Encoder'', ''A Pipeline 3 - Imputer'',
        ''A Pipeline 3 - One Hot Encoder'', ''Random Forest Classifier'']
   \<and> length (shared_keys BINARY
         (Some [(''DFS Transformer'', [''DFS Transformer'', ''X'', ''y''])]) None
         ''Random Forest Classifier'')
       + sum_list (map (\<lambda>p. length (component_dict p))
           [linear_pipeline ''A'', linear_pipeline ''A'', linear_pipeline ''A'']) = 9"
proof -
  let ?ps = "[linear_pipeline ''A'', linear_pipeline ''A'', linear_pipeline ''A'']"
  let ?pre = "Some [(''DFS Transformer'', [''DFS Transformer'', ''X'', ''y''])]"
  have h2: "\<forall>p \<in> set ?ps. distinct (map fst (component_dict p))"
    by (simp add: linear_pipeline_def)
  have h3: "\<forall>p \<in> set ?ps. dash_free (label_of None (pipeline_name p))"
    by (simp add: linear_pipeline_def label_of_def alias_of_def sub_pipeline_name_of_def
        dash_free_def)
  have h4: "\<forall>p \<in> set ?ps. \<forall>q \<in> set ?ps. pipeline_name p \<noteq> pipeline_name q \<longrightarrow>
           label_of None (pipeline_name p) \<noteq> label_of None (pipeline_name q)"
    by (simp add: linear_pipeline_def)
  have h5: "distinct (shared_keys BINARY ?pre None ''Random Forest Classifier'')"
    by (simp add: shared_keys_def or_empty_def)
  have h6: "\<forall>k \<in> set (shared_keys BINARY ?pre None ''Random Forest Classifier''). dash_free k"
    by (simp add: shared_keys_def or_empty_def dash_free_def)
  from merged_graph_keys[OF sample_merge h2 h3 h4 h5 h6]
  show ?thesis by simp
qed

section \<open>The stacked-ensemble assembler and the caller's parameters\<close>

subsection \<open>C8: the caller's dictionary after the call\<close>

text \<open>
  Claim C8 says that a parameters dictionary the caller retains is unchanged by a
  graph-assembly call, the stacked-ensemble assembler's \<open>label_encoder_params\<close> included.
  \<open>_make_pipeline_from_multiple_graphs\<close> deep-copies its \<open>parameters\<close>; the stacked-ensemble
  assembler does not copy: for a classification problem and a non-empty
  \<open>label_encoder_params\<close> it writes the ensemble's entry and one entry per node into the
  caller's object. Here the caller's dictionary, at address 0, holds one entry before the
  call and four after it.
\<close>

theorem stacked_ensemble_writes_to_label_encoder_params:
  "make_stacked_ensemble_pipeline sample_registry [forest_pipeline] BINARY (PInt (- 1))
       (Some 0) [caller_label_encoder_params]
     = Inr ([(''Label Encoder'', [''Label Encoder'', ''X'', ''y'']),
             (''Random Forest Pipeline - Imputer'', [''Imputer'', ''X'', ''Label Encoder.y'']),
             (''Random Forest Pipeline - Random Forest Classifier'',
              [''Random Forest Classifier'', ''Random Forest Pipeline - Imputer.x'',
               ''Label Encoder.y'']),
             (''Stacked Ensemble Classifier'',
              [''Stacked Ensemble Classifier'',
               ''Random Forest Pipeline - Random Forest Classifier.x'', ''y''])],
            0,
            [[(''Label Encoder'', [(''positive_class'', PStr ''yes'')]),
              (''Stacked Ensemble Classifier'', [(''n_jobs'', PInt (- 1))]),
              (''Random Forest Pipeline - Imputer'',
               [(''numeric_impute_strategy'', PStr ''mean'')]),
              (''Random Forest Pipeline - Random Forest Classifier'',
               [(''n_estimators'', PInt 100)])]])"
  by code_simp

end
